theory Spec2Isabelle
  imports Complex_Main "HOL-Library.Word" "HOL-Library.Char_ord" "HOL-Library.List_Lexorder"
begin

section \<open>Message headers and events\<close>

text \<open>
  Time stamps (\<open>rclcpp::Time\<close>) are integers, in nanoseconds. The header's frequency is a
  \<open>float\<close> in the source; it is only stored and copied here, and is kept as a real number.
  Tracking numbers, sizes and counts are the source's unsigned counters
  (\<open>Tracker::TrackingNumber\<close>, \<open>size_t\<close>), whose declarations are in
  \<open>tracker.hpp\<close>; they are natural numbers here.
\<close>

type_synonym time = int

record header =
  tracking_number :: nat
  frequency :: real
  size_h :: nat
  stamp :: time

datatype event_code = service_unavailable | lost_messages | out_of_order

text \<open>
  \<open>EventsLogger::Event\<close> as \<open>_request\<close> fills it: caller name, code and description.
  The loss event of the specification carries the size of the gap as well; the field
  \<open>gap\<close> holds it (0 for every other event).
\<close>

record event =
  caller_name :: string
  code :: event_code
  gap :: nat
  description :: string

text \<open>
  \<open>std::shared_ptr<EventsLogger>\<close>: \<open>None\<close> is the null pointer, \<open>Some evs\<close> a logger
  with the events written to it so far, oldest first.
\<close>

type_synonym events_logger = "event list option"

text \<open>
  Modelled from the spec: \<open>EventSink.write_event\<close> (\<open>events_logger.hpp\<close> is not among the
  sources). The event is appended to the sink. The callbacks hand the node's logger pointer
  to \<open>Tracker::scan\<close> as it is, null or not; a null sink receives nothing, which is what
  the guard in \<open>_request\<close> does.
\<close>

definition write_event :: "event \<Rightarrow> events_logger \<Rightarrow> events_logger" where
  "write_event ev sink = (case sink of None \<Rightarrow> None | Some evs \<Rightarrow> Some (evs @ [ev]))"

section \<open>The tracker (statistics accumulator)\<close>

text \<open>
  Modelled from the spec: the class \<open>Tracker\<close> (\<open>tracker.hpp\<close> and its implementation are
  not among the sources). The fields are those of the specification's accumulator state, with
  the names of the node and of the endpoint the constructor receives, and the counter that
  \<open>get_and_update_tracking_number\<close> issues from. The running mean, variance, minimum and
  maximum of the latency are floating-point statistics; they are left out, \<open>count\<close> and
  \<open>last_value\<close> are kept.
\<close>

record tracker =
  node_name :: string
  endpoint_name :: string
  next_tracking_number :: nat
  count :: nat
  last_value :: int
  expected_next_tracking_number :: nat
  lost_count :: nat
  frequency_t :: real
  size_t :: nat

text \<open>
  Modelled from the spec: the constructor \<open>Tracker(node_name, topic_name, options)\<close>. All
  counters start at 0. The tracking options, of which the specification says nothing, are
  left out.
\<close>

definition Tracker :: "string \<Rightarrow> string \<Rightarrow> tracker" where
  "Tracker nn en =
     \<lparr>node_name = nn, endpoint_name = en, next_tracking_number = 0, count = 0,
      last_value = 0, expected_next_tracking_number = 0, lost_count = 0,
      frequency_t = 0, size_t = 0\<rparr>"

text \<open>
  Modelled from the spec: \<open>get_and_increment_tracking_number\<close> (in the source,
  \<open>get_and_update_tracking_number\<close>) returns the current counter, then advances it by one.
\<close>

definition get_and_update_tracking_number :: "tracker \<Rightarrow> nat \<times> tracker" where
  "get_and_update_tracking_number t =
     (next_tracking_number t, t\<lparr>next_tracking_number := next_tracking_number t + 1\<rparr>)"

text \<open>
  Modelled from the spec: \<open>set_frequency\<close> and \<open>set_size\<close> store the frequency and the
  size that the accumulator reports.
\<close>

definition set_frequency :: "real \<Rightarrow> tracker \<Rightarrow> tracker" where
  "set_frequency f t = t\<lparr>frequency_t := f\<rparr>"

definition set_size :: "nat \<Rightarrow> tracker \<Rightarrow> tracker" where
  "set_size s t = t\<lparr>size_t := s\<rparr>"

text \<open>
  Modelled from the spec: \<open>record_latency\<close> (in the source, \<open>add_sample\<close>) counts the
  sample and keeps it as the last value.
\<close>

definition add_sample :: "int \<Rightarrow> tracker \<Rightarrow> tracker" where
  "add_sample v t = t\<lparr>count := count t + 1, last_value := v\<rparr>"

text \<open>
  Modelled from the spec: the two events of \<open>scan\<close>, the loss event with the name of the
  endpoint and the gap, and the event for a sample that arrives out of order. The
  specification gives no wording for their descriptions: they are empty.
\<close>

definition loss_event :: "tracker \<Rightarrow> nat \<Rightarrow> event" where
  "loss_event t g =
     \<lparr>caller_name = endpoint_name t, code = lost_messages, gap = g, description = []\<rparr>"

definition anomaly_event :: "tracker \<Rightarrow> event" where
  "anomaly_event t =
     \<lparr>caller_name = endpoint_name t, code = out_of_order, gap = 0, description = []\<rparr>"

text \<open>
  Modelled from the spec: \<open>scan(header, receive_time, sink)\<close>. The first sample of an
  endpoint (no sample counted yet) sets the expected number and skips the gap check. A
  later sample at or beyond the expected number adds the gap to \<open>lost_count\<close>, emits one
  loss event when the gap is positive, and moves the expected number past the sample. A
  sample below the expected number is recorded as an anomaly and changes neither counter.
  Frequency and size are always taken from the header and the latency, receive time minus
  send time and not clamped, is recorded.
\<close>

definition check_gap :: "tracker \<Rightarrow> nat \<Rightarrow> events_logger \<Rightarrow> tracker \<times> events_logger" where
  "check_gap t tn sink =
     (if count t = 0 then (t\<lparr>expected_next_tracking_number := tn + 1\<rparr>, sink)
      else if tn \<ge> expected_next_tracking_number t then
        (let g = tn - expected_next_tracking_number t;
             t1 = (if g > 0 then t\<lparr>lost_count := lost_count t + g\<rparr> else t);
             sink1 = (if g > 0 then write_event (loss_event t g) sink else sink)
         in (t1\<lparr>expected_next_tracking_number := tn + 1\<rparr>, sink1))
      else (t, write_event (anomaly_event t) sink))"

definition scan :: "tracker \<Rightarrow> header \<Rightarrow> time \<Rightarrow> events_logger \<Rightarrow> tracker \<times> events_logger" where
  "scan t h receive_time sink =
     (let latency = receive_time - stamp h;
          (t1, sink1) = check_gap t (tracking_number h) sink;
          t2 = t1\<lparr>frequency_t := frequency h, size_t := size_h h\<rparr>
      in (add_sample latency t2, sink1))"

text \<open>A sequence of scans on one accumulator: each sample is a header and its receive time.\<close>

fun scan_all :: "tracker \<Rightarrow> (header \<times> time) list \<Rightarrow> events_logger \<Rightarrow> tracker \<times> events_logger" where
  "scan_all t [] sink = (t, sink)"
| "scan_all t ((h, now) # hs) sink = (case scan t h now sink of (t1, sink1) \<Rightarrow> scan_all t1 hs sink1)"

section \<open>The node: endpoints, their trackers and the callbacks\<close>

datatype error = out_of_range

datatype msg_pass_by_t = PASS_BY_UNIQUE_PTR | PASS_BY_SHARED_PTR

text \<open>
  The payload \<open>msg->data\<close> of a message type: either \<open>std::vector<uint8_t>\<close> or a type of
  fixed layout, given by the bytes of its object representation (\<open>sizeof\<close> is their number).
\<close>

datatype payload = VectorData "8 word list" | FixedData "8 word list"

record message =
  header :: header
  data :: payload

text \<open>
  A \<open>std::map<std::string, ...>\<close> is the list of its entries in iteration order, that is
  in the order of the keys. \<open>map_at\<close> is \<open>at\<close>, which throws \<open>std::out_of_range\<close> for a
  missing key; \<open>map_assign\<close> writes through the reference \<open>at\<close> returned;
  \<open>map_insert\<close> is \<open>insert\<close>, which leaves an entry with the same key as it is.
\<close>

definition map_at :: "(string \<times> 'v) list \<Rightarrow> string \<Rightarrow> error + 'v" where
  "map_at m k = (case map_of m k of None \<Rightarrow> Inl out_of_range | Some v \<Rightarrow> Inr v)"

definition map_assign :: "string \<Rightarrow> 'v \<Rightarrow> (string \<times> 'v) list \<Rightarrow> (string \<times> 'v) list" where
  "map_assign k v m = map (\<lambda>e. if fst e = k then (k, v) else e) m"

fun map_insert :: "string \<Rightarrow> 'v \<Rightarrow> (string \<times> 'v) list \<Rightarrow> (string \<times> 'v) list" where
  "map_insert k v [] = [(k, v)]"
| "map_insert k v (e # m) =
     (if fst e = k then e # m
      else if k < fst e then (k, v) # e # m
      else e # map_insert k v m)"

text \<open>
  The state of a \<open>PerformanceNodeBase\<close>. The transport handles stored next to the trackers
  are opaque pointers and are left out; what the node hands to the transport is logged in
  \<open>published\<close> (messages passed to \<open>publish\<close>, with the topic) and \<open>requests_sent\<close>
  (request headers passed to \<open>async_send_request\<close>, with the service), oldest first. A
  client's entry holds its tracker and its next request number.
\<close>

record node =
  name_n :: string
  m_executor_id :: int
  pubs :: "(string \<times> tracker) list"
  subs :: "(string \<times> tracker) list"
  clients :: "(string \<times> tracker \<times> nat) list"
  servers :: "(string \<times> tracker) list"
  events_logger :: events_logger
  client_lock :: bool
  published :: "(string \<times> message) list"
  requests_sent :: "(string \<times> header) list"

text \<open>
  The constructor, with the name of the ROS node that \<open>set_ros_node\<close> attaches: no
  endpoint, no events logger, the lock flag clear.
\<close>

definition PerformanceNodeBase :: "string \<Rightarrow> int \<Rightarrow> node" where
  "PerformanceNodeBase nm executor_id =
     \<lparr>name_n = nm, m_executor_id = executor_id, pubs = [], subs = [], clients = [],
      servers = [], events_logger = None, client_lock = False, published = [],
      requests_sent = []\<rparr>"

definition set_events_logger :: "event list \<Rightarrow> node \<Rightarrow> node" where
  "set_events_logger ev n = n\<lparr>events_logger := Some ev\<rparr>"

definition add_subscriber :: "string \<Rightarrow> node \<Rightarrow> node" where
  "add_subscriber topic n = n\<lparr>subs := map_insert topic (Tracker (name_n n) topic) (subs n)\<rparr>"

definition add_publisher :: "string \<Rightarrow> node \<Rightarrow> node" where
  "add_publisher topic n = n\<lparr>pubs := map_insert topic (Tracker (name_n n) topic) (pubs n)\<rparr>"

definition add_server :: "string \<Rightarrow> node \<Rightarrow> node" where
  "add_server service n =
     n\<lparr>servers := map_insert service (Tracker (name_n n) service) (servers n)\<rparr>"

definition add_client :: "string \<Rightarrow> node \<Rightarrow> node" where
  "add_client service n =
     n\<lparr>clients := map_insert service (Tracker (name_n n) service, 0) (clients n)\<rparr>"

text \<open>\<open>all_trackers\<close> and \<open>pub_trackers\<close>: the loops push one pair per entry.\<close>

definition all_trackers :: "node \<Rightarrow> (string \<times> tracker) list" where
  "all_trackers n =
     (let trackers = [];
          trackers = foldl (\<lambda>acc sub. acc @ [(fst sub, snd sub)]) trackers (subs n);
          trackers = foldl (\<lambda>acc client. acc @ [(fst client, fst (snd client))]) trackers (clients n)
      in trackers)"

definition pub_trackers :: "node \<Rightarrow> (string \<times> tracker) list" where
  "pub_trackers n =
     (let trackers = [];
          trackers = foldl (\<lambda>acc pub. acc @ [(fst pub, snd pub)]) trackers (pubs n)
      in trackers)"

definition create_msg_header :: "time \<Rightarrow> real \<Rightarrow> nat \<Rightarrow> nat \<Rightarrow> header" where
  "create_msg_header publish_time pub_frequency tn msg_size =
     \<lparr>tracking_number = tn, frequency = pub_frequency, size_h = msg_size, stamp = publish_time\<rparr>"

text \<open>\<open>std::vector::resize\<close>: cut to the first \<open>n\<close> elements, or filled up with zeros.\<close>

definition resize :: "8 word list \<Rightarrow> nat \<Rightarrow> 8 word list" where
  "resize xs n = take n xs @ replicate (n - length xs) 0"

text \<open>
  The two overloads of \<open>resize_msg\<close>, chosen by the type of the payload. The result is the
  reported size and the payload as the call leaves it.
\<close>

fun resize_msg :: "payload \<Rightarrow> nat \<Rightarrow> nat \<times> payload" where
  "resize_msg (FixedData bs) sz = (length bs, FixedData bs)"
| "resize_msg (VectorData bs) sz = (sz, VectorData (resize bs sz))"

text \<open>
  \<open>_publish\<close>. \<open>data0\<close> is the payload of a default-constructed message of the type
  \<open>Msg\<close>; \<open>publish_time\<close> and \<open>end_time\<close> are the two readings of the clock. The two
  branches of the switch differ in the ownership of the message only: \<open>send_msg\<close> is the
  body of either, followed by the three updates of the tracker that come after the switch.
  The frequency is the quotient in the reals (a period of 0 makes it infinite in the
  source); the publishing time is in microseconds, for a clock that does not run backwards
  between the two readings.
\<close>

definition send_msg ::
  "string \<Rightarrow> tracker \<Rightarrow> nat \<Rightarrow> real \<Rightarrow> payload \<Rightarrow> nat \<Rightarrow> time \<Rightarrow> time \<Rightarrow> node \<Rightarrow> node" where
  "send_msg nm tr tn pub_frequency data0 sz publish_time end_time n =
     (let (msg_size, d) = resize_msg data0 sz;
          msg = \<lparr>header = create_msg_header publish_time pub_frequency tn msg_size, data = d\<rparr>;
          pub_time_us = (end_time - publish_time) div 1000;
          tr1 = add_sample pub_time_us (set_size msg_size (set_frequency pub_frequency tr))
      in n\<lparr>pubs := map_assign nm tr1 (pubs n), published := published n @ [(nm, msg)]\<rparr>)"

definition publish ::
  "string \<Rightarrow> msg_pass_by_t \<Rightarrow> nat \<Rightarrow> int \<Rightarrow> payload \<Rightarrow> time \<Rightarrow> time \<Rightarrow> node \<Rightarrow> error + node" where
  "publish nm msg_pass_by sz period data0 publish_time end_time n =
     (case map_at (pubs n) nm of
        Inl e \<Rightarrow> Inl e
      | Inr tr \<Rightarrow>
          (let pub_frequency = 1000000 / real_of_int period;
               (tn, tr1) = get_and_update_tracking_number tr
           in case msg_pass_by of
                PASS_BY_SHARED_PTR \<Rightarrow>
                  Inr (send_msg nm tr1 tn pub_frequency data0 sz publish_time end_time n)
              | PASS_BY_UNIQUE_PTR \<Rightarrow>
                  Inr (send_msg nm tr1 tn pub_frequency data0 sz publish_time end_time n)))"

text \<open>Successive firings of one publisher's timer, each with its two clock readings.\<close>

fun publish_all ::
  "string \<Rightarrow> msg_pass_by_t \<Rightarrow> nat \<Rightarrow> int \<Rightarrow> payload \<Rightarrow> (time \<times> time) list \<Rightarrow> node \<Rightarrow> error + node" where
  "publish_all nm pb sz period data0 [] n = Inr n"
| "publish_all nm pb sz period data0 ((t0, t1) # ts) n =
     (case publish nm pb sz period data0 t0 t1 n of
        Inl e \<Rightarrow> Inl e
      | Inr n1 \<Rightarrow> publish_all nm pb sz period data0 ts n1)"

text \<open>\<open>_topic_callback\<close>: the subscriber's tracker scans the header of the message.\<close>

definition topic_callback :: "string \<Rightarrow> message \<Rightarrow> time \<Rightarrow> node \<Rightarrow> error + node" where
  "topic_callback nm msg now n =
     (case map_at (subs n) nm of
        Inl e \<Rightarrow> Inl e
      | Inr tr \<Rightarrow>
          (let (tr1, lg) = scan tr (header msg) now (events_logger n)
           in Inr (n\<lparr>subs := map_assign nm tr1 (subs n), events_logger := lg\<rparr>)))"

text \<open>Successive deliveries on one topic, each message with the time it is received.\<close>

fun topic_callbacks :: "string \<Rightarrow> (message \<times> time) list \<Rightarrow> node \<Rightarrow> error + node" where
  "topic_callbacks nm [] n = Inr n"
| "topic_callbacks nm ((msg, now) # ms) n =
     (case topic_callback nm msg now n of
        Inl e \<Rightarrow> Inl e
      | Inr n1 \<Rightarrow> topic_callbacks nm ms n1)"

text \<open>
  \<open>_request\<close>. \<open>available\<close> is what \<open>wait_for_service(1.0s)\<close> returns. The flag
  \<open>_client_lock\<close> is one member of the node. \<open>request_body\<close> is the part of the function
  that runs with the flag set (from the lookup of the client to the end); both of its
  exits clear the flag. The request is default-constructed, then its frequency, tracking
  number and stamp are set.
\<close>

definition default_header :: header where
  "default_header = \<lparr>tracking_number = 0, frequency = 0, size_h = 0, stamp = 0\<rparr>"

definition unavailable_event :: "string \<Rightarrow> node \<Rightarrow> event" where
  "unavailable_event nm n =
     \<lparr>caller_name = nm @ ''->'' @ name_n n, code = service_unavailable, gap = 0,
      description = ''[service] '' @ [CHR 0x27] @ nm @ [CHR 0x27] @ '' unavailable after 1s''\<rparr>"

definition request_body :: "string \<Rightarrow> bool \<Rightarrow> time \<Rightarrow> node \<Rightarrow> error + node" where
  "request_body nm available now n =
     (case map_at (clients n) nm of
        Inl e \<Rightarrow> Inl e
      | Inr (tr, tn) \<Rightarrow>
          if \<not> available then
            (let n1 = (case events_logger n of
                         None \<Rightarrow> n
                       | Some evs \<Rightarrow> n\<lparr>events_logger := Some (evs @ [unavailable_event nm n])\<rparr>)
             in Inr (n1\<lparr>client_lock := False\<rparr>))
          else
            (let req = default_header\<lparr>frequency := frequency_t tr, tracking_number := tn,
                                      stamp := now\<rparr>;
                 n1 = n\<lparr>requests_sent := requests_sent n @ [(nm, req)]\<rparr>;
                 n2 = n1\<lparr>clients := map_assign nm (tr, tn + 1) (clients n1)\<rparr>
             in Inr (n2\<lparr>client_lock := False\<rparr>)))"

definition request :: "string \<Rightarrow> nat \<Rightarrow> bool \<Rightarrow> time \<Rightarrow> node \<Rightarrow> error + node" where
  "request nm sz available now n =
     (if client_lock n then Inr n
      else request_body nm available now (n\<lparr>client_lock := True\<rparr>))"

text \<open>
  Successive firings of one client's timer: each with the answer of the availability probe
  and the reading of the clock. No response arrives in between.
\<close>

fun requests :: "string \<Rightarrow> nat \<Rightarrow> (bool \<times> time) list \<Rightarrow> node \<Rightarrow> error + node" where
  "requests nm sz [] n = Inr n"
| "requests nm sz ((available, now) # cs) n =
     (case request nm sz available now n of
        Inl e \<Rightarrow> Inl e
      | Inr n1 \<Rightarrow> requests nm sz cs n1)"

text \<open>
  \<open>_response_received_callback\<close>: the client's tracker scans the header of the request
  that was answered.
\<close>

definition response_received_callback :: "string \<Rightarrow> header \<Rightarrow> time \<Rightarrow> node \<Rightarrow> error + node" where
  "response_received_callback nm req now n =
     (case map_at (clients n) nm of
        Inl e \<Rightarrow> Inl e
      | Inr (tr, tn) \<Rightarrow>
          (let (tr1, lg) = scan tr req now (events_logger n)
           in Inr (n\<lparr>clients := map_assign nm (tr1, tn) (clients n), events_logger := lg\<rparr>)))"

text \<open>
  \<open>_service_callback\<close>: fills the header of the response, then the server's tracker scans
  the header of the request. The result is the response and the node.
\<close>

definition service_callback ::
  "string \<Rightarrow> header \<Rightarrow> header \<Rightarrow> time \<Rightarrow> node \<Rightarrow> error + (header \<times> node)" where
  "service_callback nm req response now n =
     (case map_at (servers n) nm of
        Inl e \<Rightarrow> Inl e
      | Inr tr \<Rightarrow>
          (let response1 = response\<lparr>frequency := frequency req, tracking_number := count tr,
                                     stamp := now\<rparr>;
               (tr1, lg) = scan tr req (stamp response1) (events_logger n)
           in Inr (response1, n\<lparr>servers := map_assign nm tr1 (servers n), events_logger := lg\<rparr>)))"

section \<open>The stand-alone publisher of the Mandalay topology\<close>

text \<open>
  The header of the generated message types: \<open>tracking_number\<close> takes a \<open>uint32_t\<close>,
  \<open>sec\<close> the \<open>int32_t\<close> and \<open>nanosec\<close> the \<open>uint32_t\<close> the two clock functions return
  (both 32-bit words here, \<open>sec\<close> in two's complement), \<open>size\<close> the \<open>size_t\<close> hint.
  The frequency is the quotient in the reals (a period of 0 makes it infinite in the
  source).
\<close>

record dds_header =
  tracking_number_d :: "32 word"
  frequency_d :: real
  size_d :: nat
  sec :: "32 word"
  nanosec :: "32 word"

record dds_message =
  header_d :: dds_header
  data_d :: payload

text \<open>
  \<open>time_point_cast\<close> from nanoseconds to seconds drops the fraction, towards zero also
  for a time before the epoch.
\<close>

definition cast_seconds :: "time \<Rightarrow> int" where
  "cast_seconds now =
     (if now < 0 then - ((- now) div 1000000000) else now div 1000000000)"

definition seconds_since_epoch :: "time \<Rightarrow> 32 word" where
  "seconds_since_epoch now = word_of_int (cast_seconds now)"

definition nanoseconds_diff :: "time \<Rightarrow> 32 word" where
  "nanoseconds_diff now =
     (let now_s_epoch = cast_seconds now;
          now_ns_epoch = now;
          now_ns_diff = now_ns_epoch - now_s_epoch * 1000000000
      in word_of_int now_ns_diff)"

text \<open>The two overloads of \<open>set_msg_size\<close>, chosen by the type of the payload.\<close>

definition set_msg_size :: "dds_message \<Rightarrow> nat \<Rightarrow> dds_message" where
  "set_msg_size msg sz =
     (case data_d msg of
        VectorData bs \<Rightarrow>
          msg\<lparr>data_d := VectorData (resize bs sz), header_d := (header_d msg)\<lparr>size_d := sz\<rparr>\<rparr>
      | FixedData bs \<Rightarrow> msg\<lparr>header_d := (header_d msg)\<lparr>size_d := sz\<rparr>\<rparr>)"

definition fill_msg ::
  "dds_message \<Rightarrow> 32 word \<Rightarrow> 32 word \<Rightarrow> nat \<Rightarrow> string \<Rightarrow> time \<Rightarrow> dds_message" where
  "fill_msg msg tn period sz nm now =
     (let msg1 = msg\<lparr>header_d := (header_d msg)\<lparr>tracking_number_d := tn,
                                                 frequency_d := 1000 / real (unat period)\<rparr>\<rparr>;
          msg2 = set_msg_size msg1 sz
      in msg2\<lparr>header_d := (header_d msg2)\<lparr>sec := seconds_since_epoch now,
                                            nanosec := nanoseconds_diff now\<rparr>\<rparr>)"

text \<open>
  \<open>Mandalay::publish\<close>. Each test of the loop reads the flag \<open>run_threads\<close>, and an
  iteration reads the clock once: the list gives these readings in order. The loop is
  followed until the flag is read false, or as far as the readings go. \<open>msg0\<close> is a
  default-constructed message; the result is the messages handed to the writer, in order.
\<close>

fun publish_loop ::
  "dds_message \<Rightarrow> 32 word \<Rightarrow> nat \<Rightarrow> string \<Rightarrow> (bool \<times> time) list \<Rightarrow> 32 word \<Rightarrow> dds_message list" where
  "publish_loop msg0 period sz nm [] tn = []"
| "publish_loop msg0 period sz nm ((run_threads, now) # rs) tn =
     (if run_threads
      then fill_msg msg0 tn period sz nm now # publish_loop msg0 period sz nm rs (tn + 1)
      else [])"

definition Mandalay_publish ::
  "dds_message \<Rightarrow> 32 word \<Rightarrow> nat \<Rightarrow> string \<Rightarrow> (bool \<times> time) list \<Rightarrow> dds_message list" where
  "Mandalay_publish msg0 period sz nm rs = publish_loop msg0 period sz nm rs 0"

section \<open>The factory: default arguments and bulk creation of nodes\<close>

text \<open>
  \<open>rmw_qos_profile_t\<close> is a structure of the middleware; the sources name one value of
  it, \<open>rmw_qos_profile_default\<close>. Any other profile is \<open>rmw_qos_profile_other\<close> with a tag.
  Periods are \<open>std::chrono::microseconds\<close>: a number of microseconds.
\<close>

datatype rmw_qos_profile_t = rmw_qos_profile_default | rmw_qos_profile_other nat

definition milliseconds :: "int \<Rightarrow> int" where
  "milliseconds ms = ms * 1000"

text \<open>
  The four \<open>add_..._from_strings\<close> functions of \<open>TemplateFactory\<close> are declared in
  \<open>factory.hpp\<close> with their default arguments; their bodies are not among the sources. Each
  function below gives the arguments the call is made with: an argument with a default is
  optional (\<open>None\<close> when the caller omits it), an argument without one is required. The
  node and the tracking options are left out.
\<close>

record subscriber_args =
  sub_msg_type :: string
  sub_topic_name :: string
  sub_msg_pass_by :: msg_pass_by_t
  sub_qos :: rmw_qos_profile_t

record publisher_args =
  pub_msg_type :: string
  pub_topic_name :: string
  pub_msg_pass_by :: msg_pass_by_t
  pub_qos :: rmw_qos_profile_t
  pub_period :: int
  pub_msg_size :: nat

record client_args =
  cli_srv_type :: string
  cli_service_name :: string
  cli_qos :: rmw_qos_profile_t
  cli_period :: int

record server_args =
  srv_srv_type :: string
  srv_service_name :: string
  srv_qos :: rmw_qos_profile_t

definition add_subscriber_from_strings ::
  "string \<Rightarrow> string \<Rightarrow> msg_pass_by_t option \<Rightarrow> rmw_qos_profile_t option \<Rightarrow> subscriber_args" where
  "add_subscriber_from_strings msg_type topic_name msg_pass_by custom_qos_profile =
     \<lparr>sub_msg_type = msg_type, sub_topic_name = topic_name,
      sub_msg_pass_by = (case msg_pass_by of None \<Rightarrow> PASS_BY_SHARED_PTR | Some p \<Rightarrow> p),
      sub_qos = (case custom_qos_profile of None \<Rightarrow> rmw_qos_profile_default | Some q \<Rightarrow> q)\<rparr>"

definition add_periodic_publisher_from_strings ::
  "string \<Rightarrow> string \<Rightarrow> msg_pass_by_t option \<Rightarrow> rmw_qos_profile_t option \<Rightarrow> int option \<Rightarrow>
   nat option \<Rightarrow> publisher_args" where
  "add_periodic_publisher_from_strings msg_type topic_name msg_pass_by custom_qos_profile
       period msg_size =
     \<lparr>pub_msg_type = msg_type, pub_topic_name = topic_name,
      pub_msg_pass_by = (case msg_pass_by of None \<Rightarrow> PASS_BY_UNIQUE_PTR | Some p \<Rightarrow> p),
      pub_qos = (case custom_qos_profile of None \<Rightarrow> rmw_qos_profile_default | Some q \<Rightarrow> q),
      pub_period = (case period of None \<Rightarrow> milliseconds 10 | Some d \<Rightarrow> d),
      pub_msg_size = (case msg_size of None \<Rightarrow> 0 | Some z \<Rightarrow> z)\<rparr>"

definition add_periodic_client_from_strings ::
  "string \<Rightarrow> string \<Rightarrow> rmw_qos_profile_t option \<Rightarrow> int option \<Rightarrow> client_args" where
  "add_periodic_client_from_strings srv_type service_name custom_qos_profile period =
     \<lparr>cli_srv_type = srv_type, cli_service_name = service_name,
      cli_qos = (case custom_qos_profile of None \<Rightarrow> rmw_qos_profile_default | Some q \<Rightarrow> q),
      cli_period = (case period of None \<Rightarrow> milliseconds 10 | Some d \<Rightarrow> d)\<rparr>"

definition add_server_from_strings ::
  "string \<Rightarrow> string \<Rightarrow> rmw_qos_profile_t option \<Rightarrow> server_args" where
  "add_server_from_strings srv_type service_name custom_qos_profile =
     \<lparr>srv_srv_type = srv_type, srv_service_name = service_name,
      srv_qos = (case custom_qos_profile of None \<Rightarrow> rmw_qos_profile_default | Some q \<Rightarrow> q)\<rparr>"

text \<open>\<open>std::to_string\<close> on an \<open>int\<close>: the decimal digits, after a minus sign when negative.\<close>

definition digit_char :: "nat \<Rightarrow> char" where
  "digit_char d = ''0123456789'' ! d"

fun to_string_nat :: "nat \<Rightarrow> string" where
  "to_string_nat n =
     (if n < 10 then [digit_char n] else to_string_nat (n div 10) @ [digit_char (n mod 10)])"

declare to_string_nat.simps [simp del]

definition to_string :: "int \<Rightarrow> string" where
  "to_string i = (if i < 0 then CHR ''-'' # to_string_nat (nat (- i)) else to_string_nat (nat i))"

text \<open>
  Modelled from the spec: the bulk helpers (\<open>create_subscriber_nodes\<close> and its three
  siblings are declared in \<open>factory.hpp\<close>; their bodies and \<open>names_utilities.hpp\<close> are not
  among the sources). A node is created for each integer of \<open>[start_id, end_id]\<close>, in
  order, and named by the fixed prefix followed by the integer; the prefix is the
  \<open>node_\<close> of the comment over the declarations. The specification says nothing of the
  endpoints each helper then adds: the nodes are as \<open>create_node\<close> leaves them.
\<close>

definition id_to_node_name :: "int \<Rightarrow> string" where
  "id_to_node_name i = ''node_'' @ to_string i"

definition create_node :: "string \<Rightarrow> int option \<Rightarrow> node" where
  "create_node nm executor_id =
     PerformanceNodeBase nm (case executor_id of None \<Rightarrow> 0 | Some x \<Rightarrow> x)"

definition create_subscriber_nodes :: "int \<Rightarrow> int \<Rightarrow> node list" where
  "create_subscriber_nodes start_id end_id =
     map (\<lambda>node_id. create_node (id_to_node_name node_id) None) [start_id..end_id]"

section \<open>Worked examples\<close>

definition sample_msg :: "nat \<Rightarrow> message" where
  "sample_msg tn =
     \<lparr>header = \<lparr>tracking_number = tn, frequency = 100, size_h = 16, stamp = 1000\<rparr>,
      data = VectorData []\<rparr>"

definition sample_node :: node where
  "sample_node =
     set_events_logger [] (add_subscriber ''chatter'' (PerformanceNodeBase ''listener'' 0))"

definition sample_full_node :: node where
  "sample_full_node =
     add_client ''sum'' (add_server ''sum'' (add_subscriber ''chatter''
       (add_subscriber ''amazon'' (add_publisher ''chatter'' (PerformanceNodeBase ''lyon'' 0)))))"

definition sample_server_node :: node where
  "sample_server_node = add_server ''sum'' (PerformanceNodeBase ''lyon'' 0)"

definition sample_fixed_msg :: dds_message where
  "sample_fixed_msg =
     \<lparr>header_d = \<lparr>tracking_number_d = 0, frequency_d = 0, size_d = 0, sec = 0, nanosec = 0\<rparr>,
      data_d = FixedData [0, 0, 0, 0, 0, 0, 0, 0, 0, 0, 0, 0]\<rparr>"

definition sample_pub_node :: node where
  "sample_pub_node = add_publisher ''chatter'' (PerformanceNodeBase ''lyon'' 0)"

definition sample_vector_msg :: dds_message where
  "sample_vector_msg =
     \<lparr>header_d = \<lparr>tracking_number_d = 0, frequency_d = 0, size_d = 0, sec = 0, nanosec = 0\<rparr>,
      data_d = VectorData []\<rparr>"

definition sample_client_node :: node where
  "sample_client_node = add_client ''sum'' (PerformanceNodeBase ''lyon'' 0)"

definition sample_samples :: "nat list \<Rightarrow> (message \<times> time) list" where
  "sample_samples tns = map (\<lambda>tn. (sample_msg tn, 1005)) tns"

section \<open>Properties of the tracker\<close>

lemma check_gap_count: "count (fst (check_gap t tn sink)) = count t"
  by (simp add: check_gap_def Let_def)

lemma check_gap_mono:
  assumes "count t = 0 \<longrightarrow> expected_next_tracking_number t = 0"
  shows "expected_next_tracking_number t
           \<le> expected_next_tracking_number (fst (check_gap t tn sink))
         \<and> lost_count t \<le> lost_count (fst (check_gap t tn sink))"
  using assms by (auto simp: check_gap_def Let_def)

lemma scan_fst:
  "fst (scan t h now sink) =
     add_sample (now - stamp h)
       ((fst (check_gap t (tracking_number h) sink))
          \<lparr>frequency_t := frequency h, size_t := size_h h\<rparr>)"
  by (simp add: scan_def Let_def case_prod_beta)

lemma scan_snd: "snd (scan t h now sink) = snd (check_gap t (tracking_number h) sink)"
  by (simp add: scan_def Let_def case_prod_beta)

lemma scan_count: "count (fst (scan t h now sink)) = count t + 1"
  by (simp add: scan_fst add_sample_def check_gap_count)

lemma scan_mono:
  assumes "count t = 0 \<longrightarrow> expected_next_tracking_number t = 0"
  shows "expected_next_tracking_number t
           \<le> expected_next_tracking_number (fst (scan t h now sink))
         \<and> lost_count t \<le> lost_count (fst (scan t h now sink))"
  using check_gap_mono[OF assms, of "tracking_number h" sink]
  by (simp add: scan_fst add_sample_def)

lemma scan_all_append:
  "scan_all t (hs @ hs') sink = (case scan_all t hs sink of (t1, s1) \<Rightarrow> scan_all t1 hs' s1)"
  by (induction hs arbitrary: t sink) (auto split: prod.splits)

lemma scan_all_mono:
  assumes "count t = 0 \<longrightarrow> expected_next_tracking_number t = 0"
  shows "expected_next_tracking_number t
           \<le> expected_next_tracking_number (fst (scan_all t hs sink))
         \<and> lost_count t \<le> lost_count (fst (scan_all t hs sink))"
  using assms
proof (induction hs arbitrary: t sink)
  case Nil
  then show ?case by simp
next
  case (Cons x hs)
  obtain h now where x: "x = (h, now)" by (cases x)
  obtain t1 s1 where s: "scan t h now sink = (t1, s1)" by (cases "scan t h now sink")
  have c: "count t1 = count t + 1" using scan_count[of t h now sink] s by simp
  have m: "expected_next_tracking_number t \<le> expected_next_tracking_number t1
             \<and> lost_count t \<le> lost_count t1"
    using scan_mono[OF Cons.prems, of h now sink] s by simp
  have "expected_next_tracking_number t1
          \<le> expected_next_tracking_number (fst (scan_all t1 hs s1))
        \<and> lost_count t1 \<le> lost_count (fst (scan_all t1 hs s1))"
    using Cons.IH[of t1 s1] c by simp
  with m show ?case by (simp add: x s)
qed

lemma scan_all_started:
  assumes "count t = 0 \<longrightarrow> expected_next_tracking_number t = 0"
  shows "count (fst (scan_all t hs sink)) = 0
           \<longrightarrow> expected_next_tracking_number (fst (scan_all t hs sink)) = 0"
  using assms
proof (induction hs arbitrary: t sink)
  case Nil
  then show ?case by simp
next
  case (Cons x hs)
  obtain h now where x: "x = (h, now)" by (cases x)
  obtain t1 s1 where s: "scan t h now sink = (t1, s1)" by (cases "scan t h now sink")
  have c: "count t1 = count t + 1" using scan_count[of t h now sink] s by simp
  show ?case using Cons.IH[of t1 s1] c by (simp add: x s)
qed

text \<open>
  C7. On a subscriber's or server's accumulator, from its construction on, no scan ever
  decreases \<open>expected_next_tracking_number\<close> or \<open>lost_count\<close>: after any samples \<open>hs\<close>,
  whatever further samples \<open>hs'\<close> are scanned, in any order of tracking numbers, both
  values are at least what they were.
\<close>

theorem scan_monotone:
  "expected_next_tracking_number (fst (scan_all (Tracker nn en) hs sink))
     \<le> expected_next_tracking_number (fst (scan_all (Tracker nn en) (hs @ hs') sink))
   \<and> lost_count (fst (scan_all (Tracker nn en) hs sink))
     \<le> lost_count (fst (scan_all (Tracker nn en) (hs @ hs') sink))"
proof -
  obtain t1 s1 where r: "scan_all (Tracker nn en) hs sink = (t1, s1)"
    by (cases "scan_all (Tracker nn en) hs sink")
  have "count (Tracker nn en) = 0 \<longrightarrow> expected_next_tracking_number (Tracker nn en) = 0"
    by (simp add: Tracker_def)
  from scan_all_started[OF this, of hs sink] r
  have "count t1 = 0 \<longrightarrow> expected_next_tracking_number t1 = 0" by simp
  from scan_all_mono[OF this, of hs' s1] show ?thesis
    by (simp add: scan_all_append r)
qed

theorem scan_monotone_witness:
  "expected_next_tracking_number (fst (scan_all (Tracker ''n'' ''t'')
      [(\<lparr>tracking_number = 0, frequency = 100, size_h = 8, stamp = 10\<rparr>, 15),
       (\<lparr>tracking_number = 4, frequency = 100, size_h = 8, stamp = 20\<rparr>, 26)] (Some []))) = 5
   \<and> expected_next_tracking_number (fst (scan_all (Tracker ''n'' ''t'')
      ([(\<lparr>tracking_number = 0, frequency = 100, size_h = 8, stamp = 10\<rparr>, 15),
        (\<lparr>tracking_number = 4, frequency = 100, size_h = 8, stamp = 20\<rparr>, 26)]
       @ [(\<lparr>tracking_number = 2, frequency = 100, size_h = 8, stamp = 30\<rparr>, 31)]) (Some []))) = 5
   \<and> lost_count (fst (scan_all (Tracker ''n'' ''t'')
      [(\<lparr>tracking_number = 0, frequency = 100, size_h = 8, stamp = 10\<rparr>, 15),
       (\<lparr>tracking_number = 4, frequency = 100, size_h = 8, stamp = 20\<rparr>, 26)] (Some [])))
     \<le> lost_count (fst (scan_all (Tracker ''n'' ''t'')
      ([(\<lparr>tracking_number = 0, frequency = 100, size_h = 8, stamp = 10\<rparr>, 15),
        (\<lparr>tracking_number = 4, frequency = 100, size_h = 8, stamp = 20\<rparr>, 26)]
       @ [(\<lparr>tracking_number = 2, frequency = 100, size_h = 8, stamp = 30\<rparr>, 31)]) (Some [])))"
  using scan_monotone[of "''n''" "''t''"
      "[(\<lparr>tracking_number = 0, frequency = 100, size_h = 8, stamp = 10\<rparr>, 15),
        (\<lparr>tracking_number = 4, frequency = 100, size_h = 8, stamp = 20\<rparr>, 26)]" "Some []"
      "[(\<lparr>tracking_number = 2, frequency = 100, size_h = 8, stamp = 30\<rparr>, 31)]"]
  by (simp add: scan_def check_gap_def Tracker_def add_sample_def Let_def write_event_def)

lemma check_gap_next:
  assumes "0 < count t" "tn = expected_next_tracking_number t"
  shows "check_gap t tn sink = (t\<lparr>expected_next_tracking_number := tn + 1\<rparr>, sink)"
  using assms by (simp add: check_gap_def Let_def)

lemma check_gap_first:
  assumes "count t = 0"
  shows "check_gap t tn sink = (t\<lparr>expected_next_tracking_number := tn + 1\<rparr>, sink)"
  using assms by (simp add: check_gap_def)

lemma check_gap_jump:
  assumes "0 < count t" "tn = expected_next_tracking_number t + k" "0 < k"
  shows "check_gap t tn sink =
           (t\<lparr>lost_count := lost_count t + k, expected_next_tracking_number := tn + 1\<rparr>,
            write_event (loss_event t k) sink)"
  using assms by (simp add: check_gap_def Let_def)

lemma scan_names:
  "endpoint_name (fst (scan t h now sink)) = endpoint_name t"
  by (simp add: scan_fst add_sample_def check_gap_def Let_def)

lemma scan_all_in_order:
  assumes "0 < count t"
    and "map (\<lambda>s. tracking_number (fst s)) hs = [expected_next_tracking_number t ..< expected_next_tracking_number t + m]"
  shows "lost_count (fst (scan_all t hs sink)) = lost_count t
       \<and> snd (scan_all t hs sink) = sink
       \<and> expected_next_tracking_number (fst (scan_all t hs sink)) = expected_next_tracking_number t + m
       \<and> 0 < count (fst (scan_all t hs sink))
       \<and> endpoint_name (fst (scan_all t hs sink)) = endpoint_name t"
  using assms
proof (induction hs arbitrary: t m)
  case Nil
  from Nil.prems(2)[symmetric] have "m = 0" by auto
  with Nil.prems(1) show ?case by simp
next
  case (Cons x hs)
  obtain h now where x: "x = (h, now)" by (cases x)
  let ?e = "expected_next_tracking_number t"
  from Cons.prems(2) have m: "0 < m" by (cases m) auto
  then have u: "[?e ..< ?e + m] = ?e # [Suc ?e ..< ?e + m]" by (simp add: upt_conv_Cons)
  from Cons.prems(2) u x have h: "tracking_number h = ?e"
    and r: "map (\<lambda>s. tracking_number (fst s)) hs = [Suc ?e ..< ?e + m]" by simp_all
  obtain t1 s1 where s: "scan t h now sink = (t1, s1)" by (cases "scan t h now sink")
  have g: "check_gap t (tracking_number h) sink = (t\<lparr>expected_next_tracking_number := ?e + 1\<rparr>, sink)"
    using check_gap_next[OF Cons.prems(1), of "tracking_number h" sink] h by simp
  have t1: "t1 = add_sample (now - stamp h) (t\<lparr>expected_next_tracking_number := ?e + 1, frequency_t := frequency h, size_t := size_h h\<rparr>)"
    using scan_fst[of t h now sink] s g by simp
  have s1: "s1 = sink" using scan_snd[of t h now sink] s g by simp
  have e1: "expected_next_tracking_number t1 = ?e + 1" and l1: "lost_count t1 = lost_count t"
    and c1: "0 < count t1" and n1: "endpoint_name t1 = endpoint_name t"
    by (simp_all add: t1 add_sample_def)
  obtain m' where m': "m = Suc m'" using m by (cases m) auto
  have "map (\<lambda>s. tracking_number (fst s)) hs = [expected_next_tracking_number t1 ..< expected_next_tracking_number t1 + m']"
    using r e1 m' by simp
  from Cons.IH[OF c1 this] show ?case
    by (simp add: x s s1 e1 l1 n1 m')
qed

lemma scan_all_single_gap:
  assumes "0 < count t" "0 < k" "0 < b"
    and "map (\<lambda>s. tracking_number (fst s)) hs =
           [expected_next_tracking_number t ..< expected_next_tracking_number t + a]
           @ [expected_next_tracking_number t + a + k ..< expected_next_tracking_number t + a + k + b]"
  shows "lost_count (fst (scan_all t hs sink)) = lost_count t + k
       \<and> snd (scan_all t hs sink) = write_event (loss_event t k) sink"
proof -
  let ?e = "expected_next_tracking_number t"
  from assms(4) obtain hs1 hs2 where hs: "hs = hs1 @ hs2"
    and m1: "map (\<lambda>s. tracking_number (fst s)) hs1 = [?e ..< ?e + a]"
    and m2: "map (\<lambda>s. tracking_number (fst s)) hs2 = [?e + a + k ..< ?e + a + k + b]"
    by (auto simp: map_eq_append_conv)
  obtain t1 s1 where r1: "scan_all t hs1 sink = (t1, s1)" by (cases "scan_all t hs1 sink")
  from scan_all_in_order[OF assms(1) m1, of sink] r1
  have l1: "lost_count t1 = lost_count t" and s1: "s1 = sink"
    and e1: "expected_next_tracking_number t1 = ?e + a" and c1: "0 < count t1"
    and n1: "endpoint_name t1 = endpoint_name t" by simp_all
  from assms(3) have u: "[?e + a + k ..< ?e + a + k + b] = (?e + a + k) # [Suc (?e + a + k) ..< ?e + a + k + b]"
    by (simp add: upt_conv_Cons)
  from m2 u obtain x hs3 where hs2: "hs2 = x # hs3" by (cases hs2) auto
  obtain h now where x: "x = (h, now)" by (cases x)
  from m2 u hs2 x have h: "tracking_number h = ?e + a + k"
    and m3: "map (\<lambda>s. tracking_number (fst s)) hs3 = [Suc (?e + a + k) ..< ?e + a + k + b]" by simp_all
  obtain t2 s2 where r2: "scan t1 h now s1 = (t2, s2)" by (cases "scan t1 h now s1")
  have g: "check_gap t1 (tracking_number h) s1 =
      (t1\<lparr>lost_count := lost_count t1 + k, expected_next_tracking_number := tracking_number h + 1\<rparr>,
       write_event (loss_event t1 k) s1)"
    using check_gap_jump[OF c1 _ assms(2), of "tracking_number h" s1] h e1 by simp
  have t2: "t2 = add_sample (now - stamp h) (t1\<lparr>lost_count := lost_count t1 + k,
      expected_next_tracking_number := tracking_number h + 1, frequency_t := frequency h, size_t := size_h h\<rparr>)"
    using scan_fst[of t1 h now s1] r2 g by simp
  have s2: "s2 = write_event (loss_event t k) sink"
    using scan_snd[of t1 h now s1] r2 g s1 n1 by (simp add: loss_event_def)
  have e2: "expected_next_tracking_number t2 = Suc (?e + a + k)" and l2: "lost_count t2 = lost_count t + k"
    and c2: "0 < count t2"
    by (simp_all add: t2 add_sample_def h l1)
  obtain b' where b': "b = Suc b'" using assms(3) by (cases b) auto
  have "map (\<lambda>s. tracking_number (fst s)) hs3 = [expected_next_tracking_number t2 ..< expected_next_tracking_number t2 + b']"
    using m3 e2 b' by simp
  from scan_all_in_order[OF c2 this, of s2]
  have "lost_count (fst (scan_all t2 hs3 s2)) = lost_count t + k \<and> snd (scan_all t2 hs3 s2) = write_event (loss_event t k) sink"
    by (simp add: l2 s2)
  then show ?thesis
    by (simp add: hs scan_all_append r1 hs2 x r2)
qed

lemma scan_first:
  assumes "count t = 0"
  shows "lost_count (fst (scan t h now sink)) = lost_count t
       \<and> snd (scan t h now sink) = sink
       \<and> expected_next_tracking_number (fst (scan t h now sink)) = tracking_number h + 1
       \<and> 0 < count (fst (scan t h now sink))
       \<and> endpoint_name (fst (scan t h now sink)) = endpoint_name t"
  using check_gap_first[OF assms, of "tracking_number h" sink]
  by (simp add: scan_fst scan_snd add_sample_def)

lemma scan_all_in_order_from:
  assumes "count t = 0 \<or> expected_next_tracking_number t = e"
    and "map (\<lambda>s. tracking_number (fst s)) hs = [e ..< e + m]"
  shows "lost_count (fst (scan_all t hs sink)) = lost_count t
       \<and> snd (scan_all t hs sink) = sink"
proof (cases "count t = 0")
  case False
  with assms(1) have "expected_next_tracking_number t = e" and "0 < count t" by simp_all
  with scan_all_in_order[of t hs m sink] assms(2) show ?thesis by simp
next
  case True
  show ?thesis
  proof (cases hs)
    case Nil
    then show ?thesis by simp
  next
    case (Cons x hs1)
    obtain h now where x: "x = (h, now)" by (cases x)
    from assms(2) Cons have m: "0 < m" by (cases m) auto
    then have u: "[e ..< e + m] = e # [Suc e ..< e + m]" by (simp add: upt_conv_Cons)
    from assms(2) u Cons x have h: "tracking_number h = e"
      and r: "map (\<lambda>s. tracking_number (fst s)) hs1 = [Suc e ..< e + m]" by simp_all
    obtain t1 s1 where s: "scan t h now sink = (t1, s1)" by (cases "scan t h now sink")
    from scan_first[OF True, of h now sink] s h
    have l1: "lost_count t1 = lost_count t" and s1: "s1 = sink"
      and e1: "expected_next_tracking_number t1 = e + 1" and c1: "0 < count t1" by simp_all
    obtain m' where m': "m = Suc m'" using m by (cases m) auto
    have "map (\<lambda>s. tracking_number (fst s)) hs1 =
            [expected_next_tracking_number t1 ..< expected_next_tracking_number t1 + m']"
      using r e1 m' by simp
    from scan_all_in_order[OF c1 this, of s1] show ?thesis
      by (simp add: Cons x s l1 s1)
  qed
qed

lemma scan_all_single_gap_from:
  assumes "if count t = 0 then 0 < a else expected_next_tracking_number t = e"
    and "0 < k" "0 < b"
    and "map (\<lambda>s. tracking_number (fst s)) hs = [e ..< e + a] @ [e + a + k ..< e + a + k + b]"
  shows "lost_count (fst (scan_all t hs sink)) = lost_count t + k
       \<and> snd (scan_all t hs sink) = write_event (loss_event t k) sink"
proof (cases "count t = 0")
  case False
  with assms(1) have "expected_next_tracking_number t = e" and "0 < count t" by simp_all
  with scan_all_single_gap[of t k b hs a sink] assms(2,3,4) show ?thesis by simp
next
  case True
  with assms(1) have a: "0 < a" by simp
  then have u: "[e ..< e + a] = e # [Suc e ..< e + a]" by (simp add: upt_conv_Cons)
  from assms(4) u obtain x hs1 where hs: "hs = x # hs1" by (cases hs) auto
  obtain h now where x: "x = (h, now)" by (cases x)
  obtain a' where a': "a = Suc a'" using a by (cases a) auto
  from assms(4) u hs x have h: "tracking_number h = e"
    and r: "map (\<lambda>s. tracking_number (fst s)) hs1 =
              [Suc e ..< e + a] @ [e + a + k ..< e + a + k + b]" by simp_all
  obtain t1 s1 where s: "scan t h now sink = (t1, s1)" by (cases "scan t h now sink")
  from scan_first[OF True, of h now sink] s h
  have l1: "lost_count t1 = lost_count t" and s1: "s1 = sink"
    and e1: "expected_next_tracking_number t1 = e + 1" and c1: "0 < count t1"
    and n1: "endpoint_name t1 = endpoint_name t" by simp_all
  have "map (\<lambda>s. tracking_number (fst s)) hs1 =
          [expected_next_tracking_number t1 ..< expected_next_tracking_number t1 + a']
          @ [expected_next_tracking_number t1 + a' + k ..< expected_next_tracking_number t1 + a' + k + b]"
    using r e1 a' by simp
  from scan_all_single_gap[OF c1 assms(2,3) this, of s1] show ?thesis
    by (simp add: hs x s l1 s1 n1 loss_event_def)
qed

lemma map_at_assign:
  assumes "map_at m k = Inr v0"
  shows "map_at (map_assign k v m) k = Inr v"
  using assms
  by (induction m) (auto simp: map_at_def map_assign_def split: option.splits if_splits)

lemma topic_callbacks_scan_all:
  assumes "map_at (subs n) nm = Inr t"
  shows "\<exists>n'. topic_callbacks nm ms n = Inr n'
           \<and> map_at (subs n') nm = Inr (fst (scan_all t (map (\<lambda>x. (header (fst x), snd x)) ms) (events_logger n)))
           \<and> events_logger n' = snd (scan_all t (map (\<lambda>x. (header (fst x), snd x)) ms) (events_logger n))"
  using assms
proof (induction ms arbitrary: n t)
  case Nil
  then show ?case by simp
next
  case (Cons x ms)
  obtain msg now where x: "x = (msg, now)" by (cases x)
  obtain t1 s1 where s: "scan t (header msg) now (events_logger n) = (t1, s1)"
    by (cases "scan t (header msg) now (events_logger n)")
  let ?n1 = "n\<lparr>subs := map_assign nm t1 (subs n), events_logger := s1\<rparr>"
  have c: "topic_callback nm msg now n = Inr ?n1"
    using Cons.prems s by (simp add: topic_callback_def)
  have "map_at (subs ?n1) nm = Inr t1" using map_at_assign[OF Cons.prems, of t1] by simp
  from Cons.IH[OF this] show ?case
    by (simp add: x c s)
qed

lemma service_callback_scan:
  assumes "map_at (servers n) nm = Inr t"
  shows "\<exists>resp n'. service_callback nm req response now n = Inr (resp, n')
           \<and> map_at (servers n') nm = Inr (fst (scan t req now (events_logger n)))
           \<and> events_logger n' = snd (scan t req now (events_logger n))"
  using assms map_at_assign[OF assms, of "fst (scan t req now (events_logger n))"]
  by (simp add: service_callback_def Let_def case_prod_beta)

text \<open>
  C1. An accumulator that has seen a sample, and expects the number \<open>e\<close> next, scans
  samples whose tracking numbers run on from \<open>e\<close> with a single gap of \<open>k\<close> numbers
  (as 0, 1, 2, 6, 7 with \<open>k = 3\<close>; on a new accumulator the first sample of the sequence is
  the one it has seen): afterwards \<open>lost_count\<close> has grown by exactly \<open>k\<close>, so it is
  \<open>k\<close> where nothing had been lost, and exactly one event has been written to the sink, a
  loss event with gap \<open>k\<close>. On an in-order sequence \<open>lost_count\<close> stays as it was, 0
  from the start, and nothing is written. The accumulators are fed by the callbacks of the
  node: \<open>_topic_callback\<close> makes the subscriber's tracker scan the header of each message
  in turn, \<open>_service_callback\<close> makes the server's tracker scan the header of the
  request, both with the node's events logger as the sink.
\<close>

theorem scan_single_gap:
  "((if count t = 0 then 0 < a else expected_next_tracking_number t = e) \<and> 0 < k \<and> 0 < b
      \<and> map (\<lambda>s. tracking_number (fst s)) hs = [e ..< e + a] @ [e + a + k ..< e + a + k + b]
      \<longrightarrow> lost_count (fst (scan_all t hs (Some evs))) = lost_count t + k
          \<and> snd (scan_all t hs (Some evs)) =
              Some (evs @ [\<lparr>caller_name = endpoint_name t, code = lost_messages, gap = k,
                              description = []\<rparr>]))
   \<and> ((count t = 0 \<or> expected_next_tracking_number t = e)
      \<and> map (\<lambda>s. tracking_number (fst s)) hs' = [e ..< e + m]
      \<longrightarrow> lost_count (fst (scan_all t hs' (Some evs))) = lost_count t
          \<and> snd (scan_all t hs' (Some evs)) = Some evs)
   \<and> (map_at (subs n) nm = Inr t
      \<longrightarrow> (\<exists>n'. topic_callbacks nm ms n = Inr n'
             \<and> map_at (subs n') nm =
                 Inr (fst (scan_all t (map (\<lambda>x. (header (fst x), snd x)) ms) (events_logger n)))
             \<and> events_logger n' =
                 snd (scan_all t (map (\<lambda>x. (header (fst x), snd x)) ms) (events_logger n))))
   \<and> (map_at (servers n) nm = Inr t
      \<longrightarrow> (\<exists>resp n'. service_callback nm req response now n = Inr (resp, n')
             \<and> map_at (servers n') nm = Inr (fst (scan_all t [(req, now)] (events_logger n)))
             \<and> events_logger n' = snd (scan_all t [(req, now)] (events_logger n))))"
proof (intro conjI impI)
  assume h: "(if count t = 0 then 0 < a else expected_next_tracking_number t = e) \<and> 0 < k \<and> 0 < b
      \<and> map (\<lambda>s. tracking_number (fst s)) hs = [e ..< e + a] @ [e + a + k ..< e + a + k + b]"
  then have s: "if count t = 0 then 0 < a else expected_next_tracking_number t = e"
    and k: "0 < k" and b: "0 < b"
    and m: "map (\<lambda>s. tracking_number (fst s)) hs = [e ..< e + a] @ [e + a + k ..< e + a + k + b]"
    by simp_all
  from scan_all_single_gap_from[OF s k b m, of "Some evs"]
  show "lost_count (fst (scan_all t hs (Some evs))) = lost_count t + k"
    and "snd (scan_all t hs (Some evs)) =
           Some (evs @ [\<lparr>caller_name = endpoint_name t, code = lost_messages, gap = k,
                           description = []\<rparr>])"
    by (simp_all add: write_event_def loss_event_def)
next
  assume h: "(count t = 0 \<or> expected_next_tracking_number t = e)
      \<and> map (\<lambda>s. tracking_number (fst s)) hs' = [e ..< e + m]"
  then have s: "count t = 0 \<or> expected_next_tracking_number t = e"
    and m: "map (\<lambda>s. tracking_number (fst s)) hs' = [e ..< e + m]" by simp_all
  from scan_all_in_order_from[OF s m, of "Some evs"]
  show "lost_count (fst (scan_all t hs' (Some evs))) = lost_count t"
    and "snd (scan_all t hs' (Some evs)) = Some evs"
    by simp_all
next
  assume "map_at (subs n) nm = Inr t"
  from topic_callbacks_scan_all[OF this, of ms]
  show "\<exists>n'. topic_callbacks nm ms n = Inr n'
             \<and> map_at (subs n') nm =
                 Inr (fst (scan_all t (map (\<lambda>x. (header (fst x), snd x)) ms) (events_logger n)))
             \<and> events_logger n' =
                 snd (scan_all t (map (\<lambda>x. (header (fst x), snd x)) ms) (events_logger n))" .
next
  assume "map_at (servers n) nm = Inr t"
  from service_callback_scan[OF this, of req response now]
  show "\<exists>resp n'. service_callback nm req response now n = Inr (resp, n')
             \<and> map_at (servers n') nm = Inr (fst (scan_all t [(req, now)] (events_logger n)))
             \<and> events_logger n' = snd (scan_all t [(req, now)] (events_logger n))"
    by (simp add: case_prod_beta)
qed

theorem scan_single_gap_witness:
  "map_at (subs sample_node) ''chatter'' = Inr (Tracker ''listener'' ''chatter'')
   \<and> events_logger sample_node = Some []
   \<and> map (\<lambda>s. tracking_number (fst s))
        (map (\<lambda>x. (header (fst x), snd x)) (sample_samples [0, 1, 2, 6, 7]))
      = [0 ..< 0 + 3] @ [0 + 3 + 3 ..< 0 + 3 + 3 + 2]
   \<and> map (\<lambda>s. tracking_number (fst s))
        (map (\<lambda>x. (header (fst x), snd x)) (sample_samples [0, 1, 2, 3])) = [0 ..< 0 + 4]
   \<and> (\<exists>n' t'. topic_callbacks ''chatter'' (sample_samples [0, 1, 2, 6, 7]) sample_node = Inr n'
         \<and> map_at (subs n') ''chatter'' = Inr t' \<and> lost_count t' = 3
         \<and> events_logger n' =
             Some [\<lparr>caller_name = ''chatter'', code = lost_messages, gap = 3, description = []\<rparr>])
   \<and> (\<exists>n' t'. topic_callbacks ''chatter'' (sample_samples [0, 1, 2, 3]) sample_node = Inr n'
         \<and> map_at (subs n') ''chatter'' = Inr t' \<and> lost_count t' = 0
         \<and> events_logger n' = Some [])"
proof -
  let ?t = "Tracker ''listener'' ''chatter''"
  let ?g = "map (\<lambda>x. (header (fst x), snd x)) (sample_samples [0, 1, 2, 6, 7])"
  let ?o = "map (\<lambda>x. (header (fst x), snd x)) (sample_samples [0, 1, 2, 3])"
  have a: "map_at (subs sample_node) ''chatter'' = Inr ?t"
    by (simp add: sample_node_def set_events_logger_def add_subscriber_def
        PerformanceNodeBase_def map_at_def)
  have b: "events_logger sample_node = Some []"
    by (simp add: sample_node_def set_events_logger_def)
  have c: "map (\<lambda>s. tracking_number (fst s)) ?g = [0 ..< 0 + 3] @ [0 + 3 + 3 ..< 0 + 3 + 3 + 2]"
    by (simp add: sample_samples_def sample_msg_def upt_rec)
  have d: "map (\<lambda>s. tracking_number (fst s)) ?o = [0 ..< 0 + 4]"
    by (simp add: sample_samples_def sample_msg_def upt_rec)
  have f: "count ?t = 0" "lost_count ?t = 0" "endpoint_name ?t = ''chatter''"
    by (simp_all add: Tracker_def)
  note g = scan_single_gap[of ?t 3 0 3 2 ?g "[]" ?o 4 sample_node "''chatter''"
      "sample_samples [0, 1, 2, 6, 7]"]
  note o = scan_single_gap[of ?t 3 0 3 2 ?g "[]" ?o 4 sample_node "''chatter''"
      "sample_samples [0, 1, 2, 3]"]
  have g1: "lost_count (fst (scan_all ?t ?g (Some []))) = 3"
    "snd (scan_all ?t ?g (Some [])) =
       Some [\<lparr>caller_name = ''chatter'', code = lost_messages, gap = 3, description = []\<rparr>]"
    using g[THEN conjunct1] c f by simp_all
  have o1: "lost_count (fst (scan_all ?t ?o (Some []))) = 0" "snd (scan_all ?t ?o (Some [])) = Some []"
    using o[THEN conjunct2, THEN conjunct1] d f by simp_all
  from g[THEN conjunct2, THEN conjunct2, THEN conjunct1, rule_format, OF a]
  obtain n1 where n1: "topic_callbacks ''chatter'' (sample_samples [0, 1, 2, 6, 7]) sample_node = Inr n1"
    "map_at (subs n1) ''chatter'' = Inr (fst (scan_all ?t ?g (events_logger sample_node)))"
    "events_logger n1 = snd (scan_all ?t ?g (events_logger sample_node))"
    by blast
  from o[THEN conjunct2, THEN conjunct2, THEN conjunct1, rule_format, OF a]
  obtain n2 where n2: "topic_callbacks ''chatter'' (sample_samples [0, 1, 2, 3]) sample_node = Inr n2"
    "map_at (subs n2) ''chatter'' = Inr (fst (scan_all ?t ?o (events_logger sample_node)))"
    "events_logger n2 = snd (scan_all ?t ?o (events_logger sample_node))"
    by blast
  have g2: "\<exists>n' t'. topic_callbacks ''chatter'' (sample_samples [0, 1, 2, 6, 7]) sample_node = Inr n'
         \<and> map_at (subs n') ''chatter'' = Inr t' \<and> lost_count t' = 3
         \<and> events_logger n' =
             Some [\<lparr>caller_name = ''chatter'', code = lost_messages, gap = 3, description = []\<rparr>]"
    using n1 g1 unfolding b by auto
  have o2: "\<exists>n' t'. topic_callbacks ''chatter'' (sample_samples [0, 1, 2, 3]) sample_node = Inr n'
         \<and> map_at (subs n') ''chatter'' = Inr t' \<and> lost_count t' = 0
         \<and> events_logger n' = Some []"
    using n2 o1 unfolding b by auto
  from a b c d g2 o2 show ?thesis by blast
qed

section \<open>Properties of the node\<close>

lemma foldl_push_back: "foldl (\<lambda>acc x. acc @ [f x]) a xs = a @ map f xs"
  by (induction xs arbitrary: a) simp_all

text \<open>
  C9. \<open>all_trackers\<close> returns one pair of name and tracker for each subscriber, in the
  order of the map, followed by one for each client, and nothing else: the result does not
  depend on the publishers or the servers of the node. The publishers' trackers are what
  \<open>pub_trackers\<close> returns, one pair for each publisher, and only those.
\<close>

theorem all_trackers_subs_then_clients:
  "all_trackers n = subs n @ map (\<lambda>client. (fst client, fst (snd client))) (clients n)
   \<and> length (all_trackers n) = length (subs n) + length (clients n)
   \<and> all_trackers (n\<lparr>pubs := ps, servers := ss\<rparr>) = all_trackers n
   \<and> pub_trackers n = pubs n
   \<and> pub_trackers (n\<lparr>subs := sb, clients := cs, servers := ss\<rparr>) = pub_trackers n"
  by (simp add: all_trackers_def pub_trackers_def foldl_push_back)

theorem all_trackers_subs_then_clients_witness:
  "all_trackers sample_full_node =
     [(''amazon'', Tracker ''lyon'' ''amazon''), (''chatter'', Tracker ''lyon'' ''chatter''),
      (''sum'', Tracker ''lyon'' ''sum'')]
   \<and> pub_trackers sample_full_node = [(''chatter'', Tracker ''lyon'' ''chatter'')]"
  using all_trackers_subs_then_clients[of sample_full_node]
  by (simp add: sample_full_node_def add_client_def add_server_def add_subscriber_def
      add_publisher_def PerformanceNodeBase_def)

text \<open>
  C10. A request handled by a server (the service is one of the node's) is answered with a
  header whose frequency is the frequency of the request's header and whose tracking number
  is the number of samples the server's tracker had counted before it scans this request;
  the scan then counts the request, so the number is not a counter of its own. The stamp is
  the time of the call and the rest of the response is as it was passed in.
\<close>

theorem service_callback_response:
  assumes "map_at (servers n) nm = Inr tr"
  shows "\<exists>resp n' tr'. service_callback nm req response now n = Inr (resp, n')
           \<and> frequency resp = frequency req
           \<and> tracking_number resp = count tr
           \<and> stamp resp = now \<and> size_h resp = size_h response
           \<and> map_at (servers n') nm = Inr tr' \<and> count tr' = count tr + 1"
proof -
  obtain t1 s1 where s: "scan tr req now (events_logger n) = (t1, s1)"
    by (cases "scan tr req now (events_logger n)")
  have c: "count t1 = count tr + 1" using scan_count[of tr req now "events_logger n"] s by simp
  have "service_callback nm req response now n =
      Inr (response\<lparr>frequency := frequency req, tracking_number := count tr, stamp := now\<rparr>,
           n\<lparr>servers := map_assign nm t1 (servers n), events_logger := s1\<rparr>)"
    using assms s by (simp add: service_callback_def Let_def)
  then show ?thesis using map_at_assign[OF assms, of t1] c by simp
qed

theorem service_callback_response_witness:
  "map_at (servers sample_server_node) ''sum'' = Inr (Tracker ''lyon'' ''sum'')
   \<and> map_sum id (\<lambda>r. tracking_number (fst r)) (service_callback ''sum''
        \<lparr>tracking_number = 7, frequency = 50, size_h = 0, stamp = 100\<rparr> default_header 130
        sample_server_node) = Inr 0
   \<and> map_sum id (\<lambda>r. frequency (fst r)) (service_callback ''sum''
        \<lparr>tracking_number = 7, frequency = 50, size_h = 0, stamp = 100\<rparr> default_header 130
        sample_server_node) = Inr 50"
proof -
  have a: "map_at (servers sample_server_node) ''sum'' = Inr (Tracker ''lyon'' ''sum'')"
    by (simp add: sample_server_node_def add_server_def PerformanceNodeBase_def map_at_def)
  show ?thesis
    using service_callback_response[OF a,
        of "\<lparr>tracking_number = 7, frequency = 50, size_h = 0, stamp = 100\<rparr>" default_header 130] a
    by (auto simp: default_header_def Tracker_def)
qed

section \<open>Payload sizes\<close>

lemma length_resize: "length (resize xs n) = n"
  by (simp add: resize_def)

lemma resize_prefix: "take (min n (length xs)) (resize xs n) = take n xs"
  by (simp add: resize_def min_def)

lemma publish_result:
  assumes "map_at (pubs n) nm = Inr tr"
  shows "publish nm pb sz period data0 t0 t1 n =
     Inr (send_msg nm (tr\<lparr>next_tracking_number := next_tracking_number tr + 1\<rparr>)
            (next_tracking_number tr) (1000000 / real_of_int period) data0 sz t0 t1 n)"
  using assms by (cases pb) (simp_all add: publish_def get_and_update_tracking_number_def)

lemma send_msg_published:
  "published (send_msg nm tr tn f data0 sz t0 t1 n) =
     published n @ [(nm, \<lparr>header = create_msg_header t0 f tn (fst (resize_msg data0 sz)),
                          data = snd (resize_msg data0 sz)\<rparr>)]"
  by (simp add: send_msg_def Let_def case_prod_beta)

lemma send_msg_pubs:
  "pubs (send_msg nm tr tn f data0 sz t0 t1 n) =
     map_assign nm (add_sample ((t1 - t0) div 1000)
        (set_size (fst (resize_msg data0 sz)) (set_frequency f tr))) (pubs n)"
  by (simp add: send_msg_def Let_def case_prod_beta)

text \<open>
  C5. As stated the claim fails on the stand-alone publisher: \<open>set_msg_size\<close> on a payload
  of fixed layout (here 12 bytes) with the hint 100 reports 100 in the header, not 12.
\<close>

theorem set_msg_size_fixed_counterexample:
  "size_d (header_d (set_msg_size sample_fixed_msg 100)) = 100
   \<and> data_d (set_msg_size sample_fixed_msg 100) = FixedData [0, 0, 0, 0, 0, 0, 0, 0, 0, 0, 0, 0]
   \<and> size_d (header_d (set_msg_size sample_fixed_msg 100))
       \<noteq> length [0 :: 8 word, 0, 0, 0, 0, 0, 0, 0, 0, 0, 0, 0]"
  by (simp add: set_msg_size_def sample_fixed_msg_def)

text \<open>
  C5, amended. In \<open>_publish\<close> a vector payload is resized to exactly the hint (cut, or
  filled with zeros) and the reported size is the hint; a payload of fixed layout is left
  as it is, the hint is ignored and the reported size is the size of the payload. The
  message handed to the transport carries the payload and the reported size in its header,
  and the publisher's tracker records the same size. In the stand-alone publisher
  \<open>set_msg_size\<close> resizes a vector payload to exactly the hint and leaves one of fixed
  layout as it is, and the size in the header is the hint in both cases.
\<close>

theorem resize_msg_sizes:
  assumes "map_at (pubs n) nm = Inr tr"
  shows "resize_msg (VectorData bs) sz = (sz, VectorData (resize bs sz))
       \<and> length (resize bs sz) = sz
       \<and> take (min sz (length bs)) (resize bs sz) = take sz bs
       \<and> resize_msg (FixedData bs) sz = (length bs, FixedData bs)
       \<and> (\<exists>n' msg tr'. publish nm pb sz period data0 t0 t1 n = Inr n'
            \<and> published n' = published n @ [(nm, msg)]
            \<and> data msg = snd (resize_msg data0 sz)
            \<and> size_h (header msg) = fst (resize_msg data0 sz)
            \<and> map_at (pubs n') nm = Inr tr'
            \<and> size_t tr' = fst (resize_msg data0 sz))
       \<and> data_d (set_msg_size m sz) =
            (case data_d m of VectorData bs \<Rightarrow> VectorData (resize bs sz)
                            | FixedData bs \<Rightarrow> FixedData bs)
       \<and> size_d (header_d (set_msg_size m sz)) = sz"
proof -
  have "\<exists>n' msg tr'. publish nm pb sz period data0 t0 t1 n = Inr n'
            \<and> published n' = published n @ [(nm, msg)]
            \<and> data msg = snd (resize_msg data0 sz)
            \<and> size_h (header msg) = fst (resize_msg data0 sz)
            \<and> map_at (pubs n') nm = Inr tr'
            \<and> size_t tr' = fst (resize_msg data0 sz)"
    using map_at_assign[OF assms]
    by (simp add: publish_result[OF assms] send_msg_published send_msg_pubs create_msg_header_def
        add_sample_def set_size_def set_frequency_def)
  moreover have "data_d (set_msg_size m sz) =
            (case data_d m of VectorData bs \<Rightarrow> VectorData (resize bs sz)
                            | FixedData bs \<Rightarrow> FixedData bs)"
    by (simp add: set_msg_size_def split: payload.splits)
  moreover have "size_d (header_d (set_msg_size m sz)) = sz"
    by (simp add: set_msg_size_def split: payload.splits)
  ultimately show ?thesis
    by (simp add: length_resize resize_prefix)
qed


theorem resize_msg_sizes_witness:
  "map_at (pubs sample_pub_node) ''chatter'' = Inr (Tracker ''lyon'' ''chatter'')
   \<and> resize_msg (VectorData [7, 7, 7, 7, 7]) 3 = (3, VectorData [7, 7, 7])
   \<and> resize_msg (VectorData [7]) 3 = (3, VectorData [7, 0, 0])
   \<and> resize_msg (FixedData [7, 7, 7, 7, 7]) 3 = (5, FixedData [7, 7, 7, 7, 7])
   \<and> map_sum id (\<lambda>n'. map (\<lambda>p. (size_h (header (snd p)), data (snd p))) (published n'))
        (publish ''chatter'' PASS_BY_UNIQUE_PTR 3 10000 (VectorData []) 50 2050 sample_pub_node)
       = Inr [(3, VectorData [0, 0, 0])]
   \<and> size_d (header_d (set_msg_size sample_fixed_msg 3)) = 3"
proof -
  have a: "map_at (pubs sample_pub_node) ''chatter'' = Inr (Tracker ''lyon'' ''chatter'')"
    by (simp add: sample_pub_node_def add_publisher_def PerformanceNodeBase_def map_at_def)
  have r: "resize [] 3 = [0, 0, (0::8 word)]" "resize [7] 3 = [7, 0, (0::8 word)]"
    "resize [7, 7, 7, 7, 7] 3 = [7, 7, (7::8 word)]"
    by (simp_all add: resize_def numeral_3_eq_3)
  show ?thesis
    using resize_msg_sizes[OF a, of "[7, 7, 7, 7, 7]" 3 PASS_BY_UNIQUE_PTR 10000 "VectorData []" 50 2050
        sample_fixed_msg]
      resize_msg_sizes[OF a, of "[7]" 3 PASS_BY_UNIQUE_PTR 10000 "VectorData []" 50 2050
        sample_fixed_msg] a r
    by (auto simp: sample_pub_node_def add_publisher_def PerformanceNodeBase_def)
qed

section \<open>Tracking numbers of published messages\<close>

lemma publish_all_numbers:
  assumes "map_at (pubs n) nm = Inr tr"
  shows "\<exists>n' tr'. publish_all nm pb sz period data0 ts n = Inr n'
           \<and> map (\<lambda>p. tracking_number (header (snd p))) (published n') =
               map (\<lambda>p. tracking_number (header (snd p))) (published n)
               @ [next_tracking_number tr ..< next_tracking_number tr + length ts]
           \<and> map fst (published n') = map fst (published n) @ replicate (length ts) nm
           \<and> map_at (pubs n') nm = Inr tr'
           \<and> next_tracking_number tr' = next_tracking_number tr + length ts"
  using assms
proof (induction ts arbitrary: n tr)
  case Nil
  then show ?case by simp
next
  case (Cons x ts)
  obtain t0 t1 where x: "x = (t0, t1)" by (cases x)
  let ?c = "next_tracking_number tr"
  let ?f = "1000000 / real_of_int period"
  let ?tr1 = "tr\<lparr>next_tracking_number := ?c + 1\<rparr>"
  let ?n1 = "send_msg nm ?tr1 ?c ?f data0 sz t0 t1 n"
  let ?tr2 = "add_sample ((t1 - t0) div 1000) (set_size (fst (resize_msg data0 sz)) (set_frequency ?f ?tr1))"
  have p: "publish nm pb sz period data0 t0 t1 n = Inr ?n1"
    by (rule publish_result[OF Cons.prems])
  have m: "map_at (pubs ?n1) nm = Inr ?tr2"
    using map_at_assign[OF Cons.prems, of ?tr2] by (simp add: send_msg_pubs)
  have c2: "next_tracking_number ?tr2 = ?c + 1"
    by (simp add: add_sample_def set_size_def set_frequency_def)
  have u: "[?c ..< ?c + length (x # ts)] = ?c # [?c + 1 ..< ?c + 1 + length ts]"
    by (simp add: upt_conv_Cons del: upt_Suc)
  from Cons.IH[OF m, unfolded c2] obtain n' tr' where
    r: "publish_all nm pb sz period data0 ts ?n1 = Inr n'"
      "map (\<lambda>p. tracking_number (header (snd p))) (published n') =
         map (\<lambda>p. tracking_number (header (snd p))) (published ?n1) @ [?c + 1 ..< ?c + 1 + length ts]"
      "map fst (published n') = map fst (published ?n1) @ replicate (length ts) nm"
      "map_at (pubs n') nm = Inr tr'"
      "next_tracking_number tr' = ?c + 1 + length ts"
    by blast
  have "publish_all nm pb sz period data0 (x # ts) n = Inr n'"
    using r(1) by (simp add: x p)
  moreover have "map (\<lambda>p. tracking_number (header (snd p))) (published n') =
      map (\<lambda>p. tracking_number (header (snd p))) (published n) @ [?c ..< ?c + length (x # ts)]"
    unfolding u r(2) by (simp add: send_msg_published create_msg_header_def)
  moreover have "map fst (published n') = map fst (published n) @ replicate (length (x # ts)) nm"
    unfolding r(3) by (simp add: send_msg_published replicate_append_same)
  moreover have "next_tracking_number tr' = ?c + length (x # ts)"
    using r(5) by simp
  ultimately show ?case using r(4) by blast
qed

lemma fill_msg_tracking_number:
  "tracking_number_d (header_d (fill_msg msg tn period sz nm now)) = tn"
  by (simp add: fill_msg_def set_msg_size_def Let_def split: payload.splits)

lemma publish_loop_numbers:
  "map (\<lambda>m. tracking_number_d (header_d m))
     (publish_loop msg0 period sz nm (map (Pair True) nows @ (False, t) # rest) tn)
   = map (\<lambda>i. tn + of_nat i) [0 ..< length nows]"
proof (induction nows arbitrary: tn)
  case Nil
  show ?case by simp
next
  case (Cons now nows)
  have "map (\<lambda>i. tn + of_nat i) [0 ..< length (now # nows)]
      = tn # map (\<lambda>i. tn + of_nat i) (map Suc [0 ..< length nows])"
    by (simp add: upt_conv_Cons map_Suc_upt del: upt_Suc)
  also have "\<dots> = tn # map (\<lambda>i. (tn + 1) + of_nat i) [0 ..< length nows]"
    by (simp add: comp_def add.assoc add.commute)
  finally show ?case
    by (simp add: Cons.IH fill_msg_tracking_number del: upt_Suc)
qed

lemma publish_loop_length:
  "length (publish_loop msg0 period sz nm (map (Pair True) nows @ (False, t) # rest) tn)
     = length nows"
  by (induction nows arbitrary: tn) simp_all

lemma Mandalay_publish_nth:
  assumes "i < length nows"
  shows "tracking_number_d (header_d
           (Mandalay_publish msg0 period sz nm (map (Pair True) nows @ (False, t) # rest) ! i))
         = of_nat i"
proof -
  let ?ms = "publish_loop msg0 period sz nm (map (Pair True) nows @ (False, t) # rest) 0"
  have l: "i < length ?ms" using assms by (simp add: publish_loop_length)
  have "map (\<lambda>m. tracking_number_d (header_d m)) ?ms ! i = (map (\<lambda>i. 0 + of_nat i) [0 ..< length nows]) ! i"
    by (simp only: publish_loop_numbers)
  then show ?thesis using l assms by (simp add: Mandalay_publish_def)
qed

text \<open>
  C4. As stated the claim fails on the stand-alone publisher, whose counter is a
  \<open>uint32_t\<close>: of \<open>2 ^ 32 + 1\<close> messages published in a row, the last one (at index
  \<open>2 ^ 32\<close>) is stamped 0, not \<open>2 ^ 32\<close>.
\<close>

theorem Mandalay_publish_wraps_counterexample:
  "length (Mandalay_publish sample_vector_msg 100 10000 ''missouri''
        (map (Pair True) (replicate (2 ^ 32 + 1) 0) @ [(False, 0)])) = 2 ^ 32 + 1
   \<and> unat (tracking_number_d (header_d
      (Mandalay_publish sample_vector_msg 100 10000 ''missouri''
        (map (Pair True) (replicate (2 ^ 32 + 1) 0) @ [(False, 0)]) ! (2 ^ 32)))) = 0
   \<and> unat (tracking_number_d (header_d
      (Mandalay_publish sample_vector_msg 100 10000 ''missouri''
        (map (Pair True) (replicate (2 ^ 32 + 1) 0) @ [(False, 0)]) ! (2 ^ 32)))) \<noteq> 2 ^ 32"
proof -
  have i: "(2::nat) ^ 32 < length (replicate (2 ^ 32 + 1) (0::int))" by simp
  have l: "length (Mandalay_publish sample_vector_msg 100 10000 ''missouri''
        (map (Pair True) (replicate (2 ^ 32 + 1) 0) @ [(False, 0)]))
      = length (replicate (2 ^ 32 + 1) (0::int))"
    unfolding Mandalay_publish_def by (rule publish_loop_length)
  have w: "unat (word_of_nat (2 ^ 32) :: 32 word) = 0" by simp
  from Mandalay_publish_nth[OF i, of sample_vector_msg 100 10000 "''missouri''" 0 "[]"] l w
  show ?thesis by simp
qed

text \<open>
  C4, amended. For \<open>M \<le> 2 ^ 32\<close>: \<open>M\<close> firings in a row of a publisher's timer on a
  node, the publisher having published nothing before, hand \<open>M\<close> messages to the
  transport, all on the publisher's topic, stamped 0, 1, ..., \<open>M - 1\<close> in this order, and
  advance the tracker's counter \<open>M\<close> times, once for each message; \<open>M\<close> iterations of the
  loop of the stand-alone publisher write \<open>M\<close> messages stamped 0, 1, ..., \<open>M - 1\<close> in
  this order.
\<close>

theorem publish_tracking_numbers:
  assumes "map_at (pubs n) nm = Inr tr" and "next_tracking_number tr = 0"
    and "length ts = M" and "length nows = M" and "M \<le> 2 ^ 32"
  shows "(\<exists>n' tr'. publish_all nm pb sz period data0 ts n = Inr n'
            \<and> map (\<lambda>p. tracking_number (header (snd p)))
                 (drop (length (published n)) (published n')) = [0 ..< M]
            \<and> map fst (drop (length (published n)) (published n')) = replicate M nm
            \<and> map_at (pubs n') nm = Inr tr' \<and> next_tracking_number tr' = M)
       \<and> map (\<lambda>m. unat (tracking_number_d (header_d m)))
            (Mandalay_publish msg0 period' sz' nm' (map (Pair True) nows @ (False, t) # rest))
          = [0 ..< M]"
proof
  from publish_all_numbers[OF assms(1), of pb sz period data0 ts] obtain n' tr' where
    r: "publish_all nm pb sz period data0 ts n = Inr n'"
      "map (\<lambda>p. tracking_number (header (snd p))) (published n') =
         map (\<lambda>p. tracking_number (header (snd p))) (published n) @ [0 ..< M]"
      "map fst (published n') = map fst (published n) @ replicate M nm"
      "map_at (pubs n') nm = Inr tr'"
      "next_tracking_number tr' = M"
    using assms(2,3) by auto
  have "drop (length (published n)) (map (\<lambda>p. tracking_number (header (snd p))) (published n'))
          = [0 ..< M]"
    unfolding r(2) by simp
  then have a: "map (\<lambda>p. tracking_number (header (snd p)))
                 (drop (length (published n)) (published n')) = [0 ..< M]"
    by (simp add: drop_map)
  have "drop (length (published n)) (map fst (published n')) = replicate M nm"
    unfolding r(3) by simp
  then have b: "map fst (drop (length (published n)) (published n')) = replicate M nm"
    by (simp add: drop_map)
  from r(1,4,5) a b
  show "\<exists>n' tr'. publish_all nm pb sz period data0 ts n = Inr n'
            \<and> map (\<lambda>p. tracking_number (header (snd p)))
                 (drop (length (published n)) (published n')) = [0 ..< M]
            \<and> map fst (drop (length (published n)) (published n')) = replicate M nm
            \<and> map_at (pubs n') nm = Inr tr' \<and> next_tracking_number tr' = M"
    by blast
next
  let ?ms = "Mandalay_publish msg0 period' sz' nm' (map (Pair True) nows @ (False, t) # rest)"
  have "map (\<lambda>m. unat (tracking_number_d (header_d m))) ?ms
      = map unat (map (\<lambda>m. tracking_number_d (header_d m)) ?ms)"
    by simp
  also have "\<dots> = map unat (map (\<lambda>i. (0 :: 32 word) + of_nat i) [0 ..< M])"
    unfolding Mandalay_publish_def publish_loop_numbers assms(4) by (rule refl)
  also have "\<dots> = map (\<lambda>i. unat (word_of_nat i :: 32 word)) [0 ..< M]"
    by simp
  also have "\<dots> = [0 ..< M]"
  proof (rule map_idI)
    fix i assume "i \<in> set [0 ..< M]"
    with assms(5) have "i < 2 ^ 32" by simp
    then show "unat (word_of_nat i :: 32 word) = i"
      by (simp add: unat_of_nat)
  qed
  finally show "map (\<lambda>m. unat (tracking_number_d (header_d m))) ?ms = [0 ..< M]" .
qed


theorem publish_tracking_numbers_witness:
  "map_at (pubs sample_pub_node) ''chatter'' = Inr (Tracker ''lyon'' ''chatter'')
   \<and> next_tracking_number (Tracker ''lyon'' ''chatter'') = 0
   \<and> length [(10, 20), (30, 40), (50 :: int, 60 :: int)] = 3
   \<and> length [5, 6, 7 :: int] = 3 \<and> (3 :: nat) \<le> 2 ^ 32
   \<and> map_sum id (\<lambda>n'. map (\<lambda>p. (fst p, tracking_number (header (snd p)))) (published n'))
        (publish_all ''chatter'' PASS_BY_UNIQUE_PTR 2 10000 (VectorData [])
           [(10, 20), (30, 40), (50, 60)] sample_pub_node)
       = Inr [(''chatter'', 0), (''chatter'', 1), (''chatter'', 2)]
   \<and> map (\<lambda>m. unat (tracking_number_d (header_d m)))
        (Mandalay_publish sample_vector_msg 100 2 ''missouri''
           (map (Pair True) [5, 6, 7] @ [(False, 8)]))
       = [0, 1, 2]"
proof -
  have a: "map_at (pubs sample_pub_node) ''chatter'' = Inr (Tracker ''lyon'' ''chatter'')"
    by (simp add: sample_pub_node_def add_publisher_def PerformanceNodeBase_def map_at_def)
  have b: "next_tracking_number (Tracker ''lyon'' ''chatter'') = 0"
    by (simp add: Tracker_def)
  have c: "length [(10, 20), (30, 40), (50 :: int, 60 :: int)] = 3"
    "length [5, 6, 7 :: int] = 3" "(3 :: nat) \<le> 2 ^ 32" by simp_all
  have p: "published sample_pub_node = []"
    by (simp add: sample_pub_node_def add_publisher_def PerformanceNodeBase_def)
  have u: "[0 ..< 3] = [0, 1, 2]" by (simp add: upt_rec)
  from publish_tracking_numbers[OF a b c, of PASS_BY_UNIQUE_PTR 2 10000 "VectorData []"
      sample_vector_msg 100 2 "''missouri''" 8 "[]"]
  obtain n' where
    r: "publish_all ''chatter'' PASS_BY_UNIQUE_PTR 2 10000 (VectorData [])
           [(10, 20), (30, 40), (50, 60)] sample_pub_node = Inr n'"
      "map (\<lambda>p. tracking_number (header (snd p))) (published n') = [0, 1, 2]"
      "map fst (published n') = [''chatter'', ''chatter'', ''chatter'']"
    and m: "map (\<lambda>m. unat (tracking_number_d (header_d m)))
        (Mandalay_publish sample_vector_msg 100 2 ''missouri''
           (map (Pair True) [5, 6, 7] @ [(False, 8)])) = [0, 1, 2]"
    by (auto simp: p u numeral_3_eq_3)
  have "map (\<lambda>p. (fst p, tracking_number (header (snd p)))) (published n')
      = zip (map fst (published n')) (map (\<lambda>p. tracking_number (header (snd p))) (published n'))"
    by (simp add: zip_map_map map_eq_conv zip_same_conv_map)
  then have "map (\<lambda>p. (fst p, tracking_number (header (snd p)))) (published n')
      = [(''chatter'', 0), (''chatter'', 1), (''chatter'', 2)]"
    by (simp add: r(2,3))
  with a b c r(1) m show ?thesis by simp
qed

section \<open>Default arguments of the factory\<close>

text \<open>
  C6. As stated the claim fails for publishers: a periodic publisher added with its
  optional arguments omitted passes its messages by unique pointer, not by shared pointer.
\<close>

theorem publisher_default_pass_by_counterexample:
  "pub_msg_pass_by (add_periodic_publisher_from_strings ''stamped10kb'' ''chatter'' None None None None)
     \<noteq> PASS_BY_SHARED_PTR"
  by (simp add: add_periodic_publisher_from_strings_def)

text \<open>
  C6, amended. With the optional argument omitted: the quality of service is the default
  profile for subscribers, publishers, clients and servers; messages are passed by shared
  pointer for a subscriber and by unique pointer for a publisher; the payload size of a
  publisher is 0; the period of a publisher and of a client is 10 ms (10000 microseconds).
  Clients and servers have no pass-by mode and no payload size, subscribers and servers no
  period.
\<close>

theorem from_strings_defaults:
  "sub_msg_pass_by (add_subscriber_from_strings msg_type topic_name None qos) = PASS_BY_SHARED_PTR
   \<and> sub_qos (add_subscriber_from_strings msg_type topic_name pass_by None) = rmw_qos_profile_default
   \<and> pub_msg_pass_by (add_periodic_publisher_from_strings msg_type topic_name None qos period msg_size)
       = PASS_BY_UNIQUE_PTR
   \<and> pub_qos (add_periodic_publisher_from_strings msg_type topic_name pass_by None period msg_size)
       = rmw_qos_profile_default
   \<and> pub_period (add_periodic_publisher_from_strings msg_type topic_name pass_by qos None msg_size)
       = 10000
   \<and> pub_msg_size (add_periodic_publisher_from_strings msg_type topic_name pass_by qos period None)
       = 0
   \<and> cli_qos (add_periodic_client_from_strings srv_type service_name None period)
       = rmw_qos_profile_default
   \<and> cli_period (add_periodic_client_from_strings srv_type service_name qos None) = 10000
   \<and> srv_qos (add_server_from_strings srv_type service_name None) = rmw_qos_profile_default"
  by (simp add: add_subscriber_from_strings_def add_periodic_publisher_from_strings_def
      add_periodic_client_from_strings_def add_server_from_strings_def milliseconds_def)

theorem from_strings_defaults_witness:
  "add_subscriber_from_strings ''stamped10kb'' ''chatter'' None None
     = \<lparr>sub_msg_type = ''stamped10kb'', sub_topic_name = ''chatter'',
        sub_msg_pass_by = PASS_BY_SHARED_PTR, sub_qos = rmw_qos_profile_default\<rparr>
   \<and> add_periodic_publisher_from_strings ''stamped10kb'' ''chatter'' None None None None
     = \<lparr>pub_msg_type = ''stamped10kb'', pub_topic_name = ''chatter'',
        pub_msg_pass_by = PASS_BY_UNIQUE_PTR, pub_qos = rmw_qos_profile_default,
        pub_period = 10000, pub_msg_size = 0\<rparr>
   \<and> add_periodic_client_from_strings ''stamped10kb'' ''sum'' None None
     = \<lparr>cli_srv_type = ''stamped10kb'', cli_service_name = ''sum'',
        cli_qos = rmw_qos_profile_default, cli_period = 10000\<rparr>
   \<and> add_server_from_strings ''stamped10kb'' ''sum'' None
     = \<lparr>srv_srv_type = ''stamped10kb'', srv_service_name = ''sum'',
        srv_qos = rmw_qos_profile_default\<rparr>"
  using from_strings_defaults[where msg_type = "''stamped10kb''" and topic_name = "''chatter''"
      and qos = None and pass_by = None and period = None and msg_size = None
      and srv_type = "''stamped10kb''" and service_name = "''sum''"]
  by (simp add: add_subscriber_from_strings_def add_periodic_publisher_from_strings_def
      add_periodic_client_from_strings_def add_server_from_strings_def milliseconds_def)

section \<open>Names of the nodes created in bulk\<close>

lemma digit_cases:
  assumes "(d::nat) < 10"
  shows "d = 0 \<or> d = 1 \<or> d = 2 \<or> d = 3 \<or> d = 4 \<or> d = 5 \<or> d = 6 \<or> d = 7 \<or> d = 8 \<or> d = 9"
  using assms by arith

lemma digit_char_code:
  assumes "d < 10"
  shows "of_char (digit_char d) = (48 + d :: nat)"
  using digit_cases[OF assms] by (auto simp: digit_char_def)

lemma digit_char_inj:
  assumes "d < 10" "d' < 10" "digit_char d = digit_char d'"
  shows "d = d'"
proof -
  have "(48 + d :: nat) = of_char (digit_char d)" using digit_char_code[OF assms(1)] by simp
  also have "\<dots> = of_char (digit_char d')" by (simp add: assms(3))
  also have "\<dots> = 48 + d'" using digit_char_code[OF assms(2)] by simp
  finally show ?thesis by simp
qed

lemma digit_char_not_minus:
  assumes "d < 10"
  shows "digit_char d \<noteq> CHR ''-''"
proof
  assume "digit_char d = CHR ''-''"
  then have "(of_char (digit_char d) :: nat) = of_char (CHR ''-'')" by simp
  with digit_char_code[OF assms] show False by simp
qed

lemma to_string_nat_not_Nil: "to_string_nat n \<noteq> []"
  by (subst to_string_nat.simps) simp

lemma to_string_nat_no_minus: "CHR ''-'' \<notin> set (to_string_nat n)"
proof (induction n rule: to_string_nat.induct)
  case (1 n)
  show ?case
  proof (cases "n < 10")
    case True
    then show ?thesis
      using digit_char_not_minus[of n] by (subst to_string_nat.simps) auto
  next
    case False
    have "n mod 10 < 10" by simp
    from digit_char_not_minus[OF this] 1[OF False] False show ?thesis
      by (subst to_string_nat.simps) auto
  qed
qed

lemma to_string_nat_inj: "to_string_nat n = to_string_nat m \<Longrightarrow> n = m"
proof (induction n arbitrary: m rule: to_string_nat.induct)
  case (1 n)
  show ?case
  proof (cases "n < 10")
    case n: True
    show ?thesis
    proof (cases "m < 10")
      case True
      from "1.prems" have "[digit_char n] = [digit_char m]"
        using n True by (simp add: to_string_nat.simps[of n] to_string_nat.simps[of m])
      then show ?thesis using digit_char_inj[OF n True] by simp
    next
      case False
      from "1.prems" have "[digit_char n] = to_string_nat (m div 10) @ [digit_char (m mod 10)]"
        using n False by (simp add: to_string_nat.simps[of n] to_string_nat.simps[of m])
      then have "to_string_nat (m div 10) = []" by simp
      then show ?thesis using to_string_nat_not_Nil by blast
    qed
  next
    case n: False
    show ?thesis
    proof (cases "m < 10")
      case True
      from "1.prems" have "to_string_nat (n div 10) @ [digit_char (n mod 10)] = [digit_char m]"
        using n True by (simp add: to_string_nat.simps[of n] to_string_nat.simps[of m])
      then have "to_string_nat (n div 10) = []" by simp
      then show ?thesis using to_string_nat_not_Nil by blast
    next
      case False
      from "1.prems" have "to_string_nat (n div 10) @ [digit_char (n mod 10)]
          = to_string_nat (m div 10) @ [digit_char (m mod 10)]"
        using n False by (simp add: to_string_nat.simps[of n] to_string_nat.simps[of m])
      then have a: "to_string_nat (n div 10) = to_string_nat (m div 10)"
        and b: "digit_char (n mod 10) = digit_char (m mod 10)" by simp_all
      from "1.IH"[OF n a] have d: "n div 10 = m div 10" .
      have "n mod 10 = m mod 10" by (rule digit_char_inj[OF _ _ b]) simp_all
      with d show ?thesis by (metis div_mult_mod_eq)
    qed
  qed
qed

lemma to_string_inj: "to_string i = to_string j \<Longrightarrow> i = j"
proof -
  assume e: "to_string i = to_string j"
  show ?thesis
  proof (cases "i < 0")
    case i: True
    show ?thesis
    proof (cases "j < 0")
      case True
      with i e have "to_string_nat (nat (- i)) = to_string_nat (nat (- j))"
        by (simp add: to_string_def)
      from to_string_nat_inj[OF this] i True show ?thesis by simp
    next
      case False
      with i e have "CHR ''-'' # to_string_nat (nat (- i)) = to_string_nat (nat j)"
        by (simp add: to_string_def)
      then have "CHR ''-'' \<in> set (to_string_nat (nat j))" by (metis list.set_intros(1))
      then show ?thesis using to_string_nat_no_minus by blast
    qed
  next
    case i: False
    show ?thesis
    proof (cases "j < 0")
      case True
      with i e have "to_string_nat (nat i) = CHR ''-'' # to_string_nat (nat (- j))"
        by (simp add: to_string_def)
      then have "CHR ''-'' \<in> set (to_string_nat (nat i))" by (metis list.set_intros(1))
      then show ?thesis using to_string_nat_no_minus by blast
    next
      case False
      with i e have "to_string_nat (nat i) = to_string_nat (nat j)"
        by (simp add: to_string_def)
      from to_string_nat_inj[OF this] i False show ?thesis by simp
    qed
  qed
qed

lemma id_to_node_name_inj: "inj_on id_to_node_name A"
  by (rule inj_onI) (simp add: id_to_node_name_def to_string_inj)

lemma create_subscriber_nodes_names:
  "map name_n (create_subscriber_nodes start_id end_id) = map id_to_node_name [start_id..end_id]"
  by (simp add: create_subscriber_nodes_def create_node_def PerformanceNodeBase_def comp_def)

text \<open>
  C8. A bulk creation over the range \<open>[start_id, end_id]\<close> with
  \<open>start_id \<le> end_id\<close> produces exactly \<open>end_id - start_id + 1\<close> nodes, named by the
  prefix \<open>node_\<close> followed by each integer of the range in order, and no two of them have
  the same name.
\<close>

theorem create_subscriber_nodes_range:
  assumes "start_id \<le> end_id"
  shows "int (length (create_subscriber_nodes start_id end_id)) = end_id - start_id + 1
       \<and> map name_n (create_subscriber_nodes start_id end_id)
           = map (\<lambda>i. ''node_'' @ to_string i) [start_id..end_id]
       \<and> distinct (map name_n (create_subscriber_nodes start_id end_id))"
proof -
  have "int (length (create_subscriber_nodes start_id end_id)) = end_id - start_id + 1"
    using assms by (simp add: create_subscriber_nodes_def)
  moreover have "distinct (map id_to_node_name [start_id..end_id])"
    by (simp add: distinct_map id_to_node_name_inj)
  ultimately show ?thesis
    by (simp add: create_subscriber_nodes_names id_to_node_name_def[abs_def])
qed


theorem create_subscriber_nodes_range_witness:
  "(8 :: int) \<le> 11
   \<and> length (create_subscriber_nodes 8 11) = 4
   \<and> map name_n (create_subscriber_nodes 8 11) = [''node_8'', ''node_9'', ''node_10'', ''node_11'']
   \<and> distinct (map name_n (create_subscriber_nodes 8 11))"
proof -
  have a: "(8 :: int) \<le> 11" by simp
  have n: "map (\<lambda>i. ''node_'' @ to_string i) [8..11] = [''node_8'', ''node_9'', ''node_10'', ''node_11'']"
    by code_simp
  from create_subscriber_nodes_range[OF a] n show ?thesis by simp
qed

section \<open>Requests of a client\<close>

lemma request_body_unavailable:
  assumes "map_at (clients n) nm = Inr c"
  shows "\<exists>n'. request_body nm False now n = Inr n'
           \<and> events_logger n' =
               (case events_logger n of None \<Rightarrow> None
                | Some evs \<Rightarrow> Some (evs @ [unavailable_event nm n]))
           \<and> requests_sent n' = requests_sent n \<and> clients n' = clients n
           \<and> name_n n' = name_n n \<and> \<not> client_lock n'"
  using assms
  by (cases c) (simp add: request_body_def split: option.splits)

lemma request_body_available:
  assumes "map_at (clients n) nm = Inr (tr, tn)"
  shows "\<exists>n'. request_body nm True now n = Inr n'
           \<and> events_logger n' = events_logger n
           \<and> requests_sent n' = requests_sent n
                @ [(nm, \<lparr>tracking_number = tn, frequency = frequency_t tr, size_h = 0, stamp = now\<rparr>)]
           \<and> clients n' = map_assign nm (tr, tn + 1) (clients n)
           \<and> name_n n' = name_n n \<and> \<not> client_lock n'"
  using assms
  by (simp add: request_body_def default_header_def Let_def)

lemma unavailable_event_lock:
  "unavailable_event nm (n\<lparr>client_lock := b\<rparr>) = unavailable_event nm n"
  by (simp add: unavailable_event_def)

lemma request_unavailable_step:
  assumes "map_at (clients n) nm = Inr c" and "\<not> client_lock n"
  shows "\<exists>n'. request nm sz False now n = Inr n'
           \<and> events_logger n' =
               (case events_logger n of None \<Rightarrow> None
                | Some evs \<Rightarrow> Some (evs @ [unavailable_event nm n]))
           \<and> requests_sent n' = requests_sent n \<and> clients n' = clients n
           \<and> name_n n' = name_n n \<and> \<not> client_lock n'"
proof -
  have "map_at (clients (n\<lparr>client_lock := True\<rparr>)) nm = Inr c" using assms(1) by simp
  from request_body_unavailable[OF this, of now] assms(2) show ?thesis
    by (auto simp: request_def unavailable_event_lock split: option.splits)
qed

lemma requests_unavailable:
  assumes "map_at (clients n) nm = Inr c" and "\<not> client_lock n" and "events_logger n = Some evs"
  shows "\<exists>n'. requests nm sz (map (Pair False) nows) n = Inr n'
           \<and> events_logger n' = Some (evs @ replicate (length nows) (unavailable_event nm n))
           \<and> requests_sent n' = requests_sent n \<and> clients n' = clients n
           \<and> \<not> client_lock n'"
  using assms
proof (induction nows arbitrary: n evs)
  case Nil
  then show ?case by simp
next
  case (Cons now nows)
  from request_unavailable_step[OF Cons.prems(1,2), of sz now] Cons.prems(3)
  obtain n1 where r: "request nm sz False now n = Inr n1"
    "events_logger n1 = Some (evs @ [unavailable_event nm n])"
    "requests_sent n1 = requests_sent n" "clients n1 = clients n"
    "name_n n1 = name_n n" "\<not> client_lock n1"
    by auto
  have e: "unavailable_event nm n1 = unavailable_event nm n"
    by (simp add: unavailable_event_def r(5))
  have "map_at (clients n1) nm = Inr c" using Cons.prems(1) r(4) by simp
  from Cons.IH[OF this r(6) r(2)] show ?case
    by (simp add: r e replicate_app_Cons_same)
qed

lemma request_available_step:
  assumes "map_at (clients n) nm = Inr (tr, tn)" and "\<not> client_lock n"
  shows "\<exists>n'. request nm sz True now n = Inr n'
           \<and> events_logger n' = events_logger n
           \<and> requests_sent n' = requests_sent n
                @ [(nm, \<lparr>tracking_number = tn, frequency = frequency_t tr, size_h = 0, stamp = now\<rparr>)]
           \<and> map_at (clients n') nm = Inr (tr, tn + 1)
           \<and> \<not> client_lock n'"
proof -
  have m: "map_at (clients (n\<lparr>client_lock := True\<rparr>)) nm = Inr (tr, tn)" using assms(1) by simp
  from request_body_available[OF m, of now] map_at_assign[OF assms(1), of "(tr, tn + 1)"] assms(2)
  show ?thesis by (auto simp: request_def)
qed

lemma requests_available:
  assumes "map_at (clients n) nm = Inr (tr, tn)" and "\<not> client_lock n"
  shows "\<exists>n'. requests nm sz (map (Pair True) nows) n = Inr n'
           \<and> map (\<lambda>p. (fst p, tracking_number (snd p))) (requests_sent n') =
               map (\<lambda>p. (fst p, tracking_number (snd p))) (requests_sent n)
               @ map (Pair nm) [tn ..< tn + length nows]
           \<and> map_at (clients n') nm = Inr (tr, tn + length nows)
           \<and> \<not> client_lock n'"
  using assms
proof (induction nows arbitrary: n tn)
  case Nil
  then show ?case by simp
next
  case (Cons now nows)
  from request_available_step[OF Cons.prems, of sz now]
  obtain n1 where r: "request nm sz True now n = Inr n1"
    "requests_sent n1 = requests_sent n
       @ [(nm, \<lparr>tracking_number = tn, frequency = frequency_t tr, size_h = 0, stamp = now\<rparr>)]"
    "map_at (clients n1) nm = Inr (tr, tn + 1)" "\<not> client_lock n1"
    by blast
  have u: "[tn ..< tn + length (now # nows)] = tn # [tn + 1 ..< tn + 1 + length nows]"
    by (simp add: upt_conv_Cons del: upt_Suc)
  from Cons.IH[OF r(3,4)] obtain n' where
    s: "requests nm sz (map (Pair True) nows) n1 = Inr n'"
      "map (\<lambda>p. (fst p, tracking_number (snd p))) (requests_sent n') =
         map (\<lambda>p. (fst p, tracking_number (snd p))) (requests_sent n1)
         @ map (Pair nm) [tn + 1 ..< tn + 1 + length nows]"
      "map_at (clients n') nm = Inr (tr, tn + 1 + length nows)" "\<not> client_lock n'"
    by blast
  have "requests nm sz (map (Pair True) (now # nows)) n = Inr n'"
    using s(1) by (simp add: r(1))
  moreover have "map (\<lambda>p. (fst p, tracking_number (snd p))) (requests_sent n') =
      map (\<lambda>p. (fst p, tracking_number (snd p))) (requests_sent n)
      @ map (Pair nm) [tn ..< tn + length (now # nows)]"
    unfolding u s(2) r(2) by simp
  moreover have "map_at (clients n') nm = Inr (tr, tn + length (now # nows))"
    using s(3) by simp
  ultimately show ?case using s(4) by blast
qed

lemma response_received_callback_lock:
  assumes "response_received_callback nm req now n = Inr n'"
  shows "client_lock n' = client_lock n \<and> requests_sent n' = requests_sent n"
  using assms
  by (auto simp: response_received_callback_def Let_def split: sum.splits prod.splits)

text \<open>
  C2. As stated the claim fails: the flag is cleared as soon as the request has been handed
  to the transport, so it is clear again when \<open>_request\<close> returns, and the next firing
  of the timer sends a second request on the same client although no response to the first
  has been received.
\<close>

theorem requests_both_sent_counterexample:
  "map_sum id client_lock (request ''sum'' 0 True 10 sample_client_node) = Inr False
   \<and> map_sum id (\<lambda>n'. map (\<lambda>p. (fst p, tracking_number (snd p))) (requests_sent n'))
        (requests ''sum'' 0 [(True, 10), (True, 20)] sample_client_node)
       = Inr [(''sum'', 0), (''sum'', 1)]"
  by (simp add: sample_client_node_def add_client_def PerformanceNodeBase_def request_def
      request_body_def map_at_def map_assign_def default_header_def Let_def)

text \<open>
  C2, amended. An invocation of \<open>_request\<close> is a no-op while the lock flag of the node
  is set. The flag is one per node, not per client; an invocation that finds it clear sets
  it, runs the rest of the function with it set (during which an invocation for any client
  of the node is a no-op), and clears it before returning: on the time-out of the
  availability probe, or right after the request has been sent, not on completion of the
  request. The callback of the response does not touch the flag. So each of successive
  invocations with the service available sends a request, numbered in order.
\<close>

theorem request_lock:
  "(client_lock n \<longrightarrow> request nm sz available now n = Inr n)
   \<and> (\<not> client_lock n \<and> map_at (clients n) nm = Inr (tr, tn) \<longrightarrow>
        request nm sz available now n = request_body nm available now (n\<lparr>client_lock := True\<rparr>)
        \<and> request nm' sz' available' now' (n\<lparr>client_lock := True\<rparr>) = Inr (n\<lparr>client_lock := True\<rparr>)
        \<and> (\<exists>n'. request nm sz available now n = Inr n' \<and> \<not> client_lock n'
              \<and> requests_sent n' =
                  (if available
                   then requests_sent n @ [(nm, \<lparr>tracking_number = tn, frequency = frequency_t tr,
                                                 size_h = 0, stamp = now\<rparr>)]
                   else requests_sent n))
        \<and> (\<exists>n'. requests nm sz (map (Pair True) nows) n = Inr n' \<and> \<not> client_lock n'
              \<and> map (\<lambda>p. (fst p, tracking_number (snd p))) (requests_sent n') =
                  map (\<lambda>p. (fst p, tracking_number (snd p))) (requests_sent n)
                  @ map (Pair nm) [tn ..< tn + length nows]))
   \<and> (response_received_callback nm req now'' n = Inr n'' \<longrightarrow> client_lock n'' = client_lock n)"
proof (intro conjI impI)
  assume "client_lock n"
  then show "request nm sz available now n = Inr n" by (simp add: request_def)
next
  assume a: "\<not> client_lock n \<and> map_at (clients n) nm = Inr (tr, tn)"
  then show "request nm sz available now n = request_body nm available now (n\<lparr>client_lock := True\<rparr>)"
    by (simp add: request_def)
next
  show "request nm' sz' available' now' (n\<lparr>client_lock := True\<rparr>) = Inr (n\<lparr>client_lock := True\<rparr>)"
    by (simp add: request_def)
next
  assume a: "\<not> client_lock n \<and> map_at (clients n) nm = Inr (tr, tn)"
  then have l: "\<not> client_lock n" and c: "map_at (clients n) nm = Inr (tr, tn)" by simp_all
  show "\<exists>n'. request nm sz available now n = Inr n' \<and> \<not> client_lock n'
              \<and> requests_sent n' =
                  (if available
                   then requests_sent n @ [(nm, \<lparr>tracking_number = tn, frequency = frequency_t tr,
                                                 size_h = 0, stamp = now\<rparr>)]
                   else requests_sent n)"
  proof (cases available)
    case True
    with request_available_step[OF c l, of sz now] show ?thesis by auto
  next
    case False
    with request_unavailable_step[OF c l, of sz now] show ?thesis by auto
  qed
next
  assume a: "\<not> client_lock n \<and> map_at (clients n) nm = Inr (tr, tn)"
  then have l: "\<not> client_lock n" and c: "map_at (clients n) nm = Inr (tr, tn)" by simp_all
  from requests_available[OF c l, of sz nows]
  show "\<exists>n'. requests nm sz (map (Pair True) nows) n = Inr n' \<and> \<not> client_lock n'
              \<and> map (\<lambda>p. (fst p, tracking_number (snd p))) (requests_sent n') =
                  map (\<lambda>p. (fst p, tracking_number (snd p))) (requests_sent n)
                  @ map (Pair nm) [tn ..< tn + length nows]"
    by blast
next
  assume "response_received_callback nm req now'' n = Inr n''"
  from response_received_callback_lock[OF this] show "client_lock n'' = client_lock n" by simp
qed


theorem request_lock_witness:
  "client_lock (sample_client_node\<lparr>client_lock := True\<rparr>)
   \<and> request ''sum'' 0 True 10 (sample_client_node\<lparr>client_lock := True\<rparr>)
       = Inr (sample_client_node\<lparr>client_lock := True\<rparr>)
   \<and> \<not> client_lock sample_client_node
   \<and> map_at (clients sample_client_node) ''sum'' = Inr (Tracker ''lyon'' ''sum'', 0)
   \<and> (\<exists>n'. request ''sum'' 0 True 10 sample_client_node = Inr n' \<and> \<not> client_lock n'
         \<and> requests_sent n' =
             [(''sum'', \<lparr>tracking_number = 0, frequency = 0, size_h = 0, stamp = 10\<rparr>)])
   \<and> (\<exists>n''. response_received_callback ''sum''
           \<lparr>tracking_number = 0, frequency = 0, size_h = 0, stamp = 10\<rparr> 15
           (sample_client_node\<lparr>client_lock := True\<rparr>) = Inr n'' \<and> client_lock n'')"
proof -
  have a: "\<not> client_lock sample_client_node"
    "map_at (clients sample_client_node) ''sum'' = Inr (Tracker ''lyon'' ''sum'', 0)"
    by (simp_all add: sample_client_node_def add_client_def PerformanceNodeBase_def map_at_def)
  have s: "requests_sent sample_client_node = []"
    "frequency_t (Tracker ''lyon'' ''sum'') = 0"
    by (simp_all add: sample_client_node_def add_client_def PerformanceNodeBase_def Tracker_def)
  have b: "client_lock (sample_client_node\<lparr>client_lock := True\<rparr>)" by simp
  obtain n2 where r: "response_received_callback ''sum''
           \<lparr>tracking_number = 0, frequency = 0, size_h = 0, stamp = 10\<rparr> 15
           (sample_client_node\<lparr>client_lock := True\<rparr>) = Inr n2"
    using a(2) by (simp add: response_received_callback_def case_prod_beta)
  note t1 = request_lock[of "sample_client_node\<lparr>client_lock := True\<rparr>" "''sum''" 0 True 10
        "Tracker ''lyon'' ''sum''" 0 "''sum''" 0 True 10 "[]"
        "\<lparr>tracking_number = 0, frequency = 0, size_h = 0, stamp = 10\<rparr>" 15 n2]
  note t2 = request_lock[of sample_client_node "''sum''" 0 True 10
        "Tracker ''lyon'' ''sum''" 0 "''sum''" 0 True 10 "[]"
        "\<lparr>tracking_number = 0, frequency = 0, size_h = 0, stamp = 10\<rparr>" 15 n2]
  have c1: "request ''sum'' 0 True 10 (sample_client_node\<lparr>client_lock := True\<rparr>)
       = Inr (sample_client_node\<lparr>client_lock := True\<rparr>)"
    using t1 b by blast
  have c2: "client_lock n2" using t1 r b by blast
  have c3: "\<exists>n'. request ''sum'' 0 True 10 sample_client_node = Inr n' \<and> \<not> client_lock n'
         \<and> requests_sent n' =
             [(''sum'', \<lparr>tracking_number = 0, frequency = 0, size_h = 0, stamp = 10\<rparr>)]"
  proof -
    from t2 a have "\<exists>n'. request ''sum'' 0 True 10 sample_client_node = Inr n' \<and> \<not> client_lock n'
         \<and> requests_sent n' = (if True then requests_sent sample_client_node
              @ [(''sum'', \<lparr>tracking_number = 0, frequency = frequency_t (Tracker ''lyon'' ''sum''),
                             size_h = 0, stamp = 10\<rparr>)]
             else requests_sent sample_client_node)"
      by blast
    then show ?thesis by (simp add: s)
  qed
  from a b c1 c2 c3 r show ?thesis by blast
qed

text \<open>
  C3. As stated the claim fails on a node without an events logger (the state of a node
  until \<open>set_events_logger\<close> is called): the cycle writes no event.
\<close>

theorem request_no_event_without_logger_counterexample:
  "map_sum id events_logger (request ''sum'' 0 False 10 sample_client_node) = Inr None"
  by (simp add: sample_client_node_def add_client_def PerformanceNodeBase_def request_def
      request_body_def map_at_def)

text \<open>
  C3, amended. For a client whose server is unreachable, on a node whose lock flag is
  clear: when the node has an events logger, each polling cycle writes exactly one event,
  with the code \<open>service_unavailable\<close>, sends no request and leaves the flag clear, so
  that any number of consecutive cycles write that many events; when the node has no
  events logger, a cycle writes nothing, sends no request and leaves the flag clear.
\<close>

theorem request_unavailable_cycles:
  assumes "map_at (clients n) nm = Inr c" and "\<not> client_lock n"
  shows "(events_logger n = Some evs \<longrightarrow>
            (\<exists>n'. requests nm sz (map (Pair False) nows) n = Inr n'
               \<and> events_logger n' = Some (evs @ replicate (length nows) (unavailable_event nm n))
               \<and> requests_sent n' = requests_sent n \<and> \<not> client_lock n'))
       \<and> (events_logger n = None \<longrightarrow>
            (\<exists>n'. request nm sz False now n = Inr n' \<and> events_logger n' = None
               \<and> requests_sent n' = requests_sent n \<and> \<not> client_lock n'))
       \<and> code (unavailable_event nm n) = service_unavailable"
proof (intro conjI impI)
  assume "events_logger n = Some evs"
  from requests_unavailable[OF assms this, of sz nows]
  show "\<exists>n'. requests nm sz (map (Pair False) nows) n = Inr n'
               \<and> events_logger n' = Some (evs @ replicate (length nows) (unavailable_event nm n))
               \<and> requests_sent n' = requests_sent n \<and> \<not> client_lock n'"
    by blast
next
  assume "events_logger n = None"
  with request_unavailable_step[OF assms, of sz now]
  show "\<exists>n'. request nm sz False now n = Inr n' \<and> events_logger n' = None
               \<and> requests_sent n' = requests_sent n \<and> \<not> client_lock n'"
    by auto
next
  show "code (unavailable_event nm n) = service_unavailable"
    by (simp add: unavailable_event_def)
qed


theorem request_unavailable_cycles_witness:
  "map_at (clients (set_events_logger [] sample_client_node)) ''sum'' = Inr (Tracker ''lyon'' ''sum'', 0)
   \<and> \<not> client_lock (set_events_logger [] sample_client_node)
   \<and> events_logger (set_events_logger [] sample_client_node) = Some []
   \<and> map_sum id (\<lambda>n'. (map_option (map code) (events_logger n'), requests_sent n', client_lock n'))
        (requests ''sum'' 0 (map (Pair False) [10, 20]) (set_events_logger [] sample_client_node))
       = Inr (Some [service_unavailable, service_unavailable], [], False)
   \<and> events_logger sample_client_node = None
   \<and> map_sum id (\<lambda>n'. (events_logger n', requests_sent n', client_lock n'))
        (request ''sum'' 0 False 10 sample_client_node) = Inr (None, [], False)"
proof -
  have a: "map_at (clients (set_events_logger [] sample_client_node)) ''sum'' = Inr (Tracker ''lyon'' ''sum'', 0)"
    "map_at (clients sample_client_node) ''sum'' = Inr (Tracker ''lyon'' ''sum'', 0)"
    by (simp_all add: sample_client_node_def set_events_logger_def add_client_def
        PerformanceNodeBase_def map_at_def)
  have b: "\<not> client_lock (set_events_logger [] sample_client_node)"
    "\<not> client_lock sample_client_node"
    by (simp_all add: sample_client_node_def set_events_logger_def add_client_def
        PerformanceNodeBase_def)
  have c: "events_logger (set_events_logger [] sample_client_node) = Some []"
    "events_logger sample_client_node = None"
    "requests_sent (set_events_logger [] sample_client_node) = []"
    "requests_sent sample_client_node = []"
    by (simp_all add: sample_client_node_def set_events_logger_def add_client_def
        PerformanceNodeBase_def)
  from request_unavailable_cycles[OF a(1) b(1), of "[]" 0 "[10, 20]" 10]
    request_unavailable_cycles[OF a(2) b(2), of "[]" 0 "[10, 20]" 10] a b c
  show ?thesis by (auto simp: numeral_2_eq_2)
qed

end
